theory Spec2Isabelle
  imports Main "HOL-Library.Log_Nat"
begin

section \<open>Text and numbers of the host language\<close>

text \<open>
  The calculator is a Python program (\<^verbatim>\<open>src/calculator.py\<close>). Its strings are modelled as
  \<open>string\<close>, one \<open>char\<close> per code point, so the model covers text whose code points are
  below 256. Python's unbounded integers are \<open>int\<close>. The library calls the program makes
  (\<^verbatim>\<open>str.strip\<close>, \<^verbatim>\<open>re.split\<close>, \<^verbatim>\<open>re.search\<close>, \<^verbatim>\<open>re.sub\<close>, \<^verbatim>\<open>float\<close>, \<^verbatim>\<open>int\<close>, \<^verbatim>\<open>bin\<close>, ...) are
  written out as functions on these types, for the arguments the program passes to them.
\<close>

definition is_space :: "char \<Rightarrow> bool" where
  \<comment> \<open>\<^verbatim>\<open>str.isspace\<close> and the regular expression class \<^verbatim>\<open>\s\<close>, on code points below 256:
      tab to carriage return, the four separators 28 to 31, space, 133 and 160.\<close>
  "is_space c = (let n = (of_char c :: nat) in
     (9 \<le> n \<and> n \<le> 13) \<or> (28 \<le> n \<and> n \<le> 32) \<or> n = 133 \<or> n = 160)"

definition is_digit :: "char \<Rightarrow> bool" where
  \<comment> \<open>the class \<^verbatim>\<open>\d\<close>: below 256 the decimal digits are \<^verbatim>\<open>0\<close> to \<^verbatim>\<open>9\<close>.\<close>
  "is_digit c = (let n = (of_char c :: nat) in 48 \<le> n \<and> n \<le> 57)"

definition strip :: "string \<Rightarrow> string" where
  \<comment> \<open>\<^verbatim>\<open>str.strip()\<close>: white space removed at both ends.\<close>
  "strip s = rev (dropWhile is_space (rev (dropWhile is_space s)))"

fun split_on :: "(char \<Rightarrow> bool) \<Rightarrow> string \<Rightarrow> string list" where
  \<comment> \<open>\<^verbatim>\<open>re.split\<close> on a class of single characters: every separator ends a part, empty
      parts included.\<close>
  "split_on P [] = [[]]"
| "split_on P (c # cs) =
     (if P c then [] # split_on P cs
      else (case split_on P cs of p # ps \<Rightarrow> (c # p) # ps | [] \<Rightarrow> [[c]]))"

definition replace_char :: "char \<Rightarrow> string \<Rightarrow> string \<Rightarrow> string" where
  \<comment> \<open>\<^verbatim>\<open>str.replace\<close> with a pattern of one character.\<close>
  "replace_char c r s = concat (map (\<lambda>x. if x = c then r else [x]) s)"

subsection \<open>Exceptions\<close>

text \<open>
  An exception is its class and its message. A class stands for itself and its subclasses,
  as an \<^verbatim>\<open>except\<close> clause sees them; \<open>OtherException\<close> is any other subclass of
  \<^verbatim>\<open>Exception\<close>. The messages are the texts the program writes; \<open>HostText\<close> is a
  message written by the interpreter.
\<close>

datatype py_exception =
  ZeroDivisionError | SyntaxError | ValueError | TypeError | NameError | OverflowError
  | OtherException

datatype message =
  MultipleDecimalPoints
  | DivisionByZeroText
  | InvalidResultText
  | RomanRangeText
  | RomanSymbolText
  | RadixRangeText
  | HostText

type_synonym raised = "py_exception \<times> message"

subsection \<open>Floating-point values\<close>

text \<open>
  A Python \<^verbatim>\<open>float\<close> is a finite double (the rational it denotes), negative zero, an
  infinity or a NaN. \<open>float_of_int\<close> is \<^verbatim>\<open>float(n)\<close> for an integer: exact up to 53
  significant bits, beyond that rounded to 53 bits, ties to even, and OverflowError when
  the rounded magnitude reaches \<open>2 ^ 1024\<close>.
\<close>

datatype pyfloat = Finite rat | NegZero | PosInf | NegInf | NaN

definition isnan :: "pyfloat \<Rightarrow> bool" where
  "isnan f = (f = NaN)"

definition isinf :: "pyfloat \<Rightarrow> bool" where
  "isinf f = (f = PosInf \<or> f = NegInf)"

definition float_of_int :: "int \<Rightarrow> py_exception + pyfloat" where
  "float_of_int n =
     (let a = \<bar>n\<bar>; bl = bitlen a in
      if bl \<le> 53 then Inr (Finite (of_int n))
      else
        (let s = nat (bl - 53);
             q = a div 2 ^ s;
             r = a mod 2 ^ s;
             q' = (if 2 * r > 2 ^ s \<or> (2 * r = 2 ^ s \<and> odd q) then q + 1 else q);
             v = q' * 2 ^ s
         in if v \<ge> 2 ^ 1024 then Inl OverflowError
            else Inr (Finite (of_int (sgn n * v)))))"

text \<open>
  What the host evaluator \<^verbatim>\<open>eval\<close> can return: an integer (\<^verbatim>\<open>bool\<close> included), a float, or
  any other object (a complex number, a tuple, a function, an instance of a class made
  inside the expression, ...). \<^verbatim>\<open>math.isnan\<close>, \<^verbatim>\<open>math.isinf\<close> and \<^verbatim>\<open>float\<close> each convert
  their argument to a double on their own. An integer is rounded and a float is itself,
  every time. Any other object is asked through its \<^verbatim>\<open>__float__\<close> (or \<^verbatim>\<open>__index__\<close>) method,
  which is code of the object: each call may answer differently or raise, and an object
  without such a method raises TypeError. \<open>PObject conv\<close> is such an object, \<open>conv k\<close>
  being the outcome of the conversion asked of it after \<open>k\<close> earlier ones.
  \<open>to_double v k\<close> is the conversion of \<open>v\<close> after \<open>k\<close> earlier conversions of it.
\<close>

datatype py_value = PInt int | PFloat pyfloat | PObject "nat \<Rightarrow> py_exception + pyfloat"

fun to_double :: "py_value \<Rightarrow> nat \<Rightarrow> py_exception + pyfloat" where
  "to_double (PInt n) k = float_of_int n"
| "to_double (PFloat f) k = Inr f"
| "to_double (PObject conv) k = conv k"

section \<open>ExpressionEvaluator\<close>

subsection \<open>sanitize\_expression\<close>

definition is_split_char :: "char \<Rightarrow> bool" where
  \<comment> \<open>the class \<^verbatim>\<open>[\+\-\*/\(\)]\<close>\<close>
  "is_split_char c = (c \<in> set ''+-*/()'')"

fun check_parts :: "string list \<Rightarrow> raised + unit" where
  "check_parts [] = Inr ()"
| "check_parts (part # parts) =
     (if count_list part (CHR ''.'') > 1 then Inl (ValueError, MultipleDecimalPoints)
      else check_parts parts)"

definition sanitize_expression :: "string \<Rightarrow> raised + string" where
  "sanitize_expression expr0 =
     (let expr = strip expr0;
          parts = split_on is_split_char expr
      in case check_parts parts of Inl e \<Rightarrow> Inl e | Inr _ \<Rightarrow> Inr expr)"

subsection \<open>The search for a division by a literal zero\<close>

text \<open>
  \<^verbatim>\<open>re.search(r'/\s*0(?:\.\0*)?(?:[^\d]|$)', expr)\<close>. In a Python pattern \<^verbatim>\<open>\0\<close> is the
  character with code 0, so the optional group is a point followed by any number of NUL
  characters. \<^verbatim>\<open>$\<close> holds at the end of the text and before a final newline. Each function
  below says whether the rest of the pattern can match at the start of its argument.
\<close>

definition tail_matches :: "string \<Rightarrow> bool" where
  \<comment> \<open>\<^verbatim>\<open>(?:[^\d]|$)\<close>\<close>
  "tail_matches r =
     ((case r of [] \<Rightarrow> False | c # _ \<Rightarrow> \<not> is_digit c) \<or> r = [] \<or> r = [CHR 0x0A])"

fun nuls_then_tail :: "string \<Rightarrow> bool" where
  \<comment> \<open>\<^verbatim>\<open>\0*(?:[^\d]|$)\<close>: some number of the leading NULs, then the tail\<close>
  "nuls_then_tail [] = tail_matches []"
| "nuls_then_tail (c # cs) = ((c = CHR 0x00 \<and> nuls_then_tail cs) \<or> tail_matches (c # cs))"

definition after_zero :: "string \<Rightarrow> bool" where
  \<comment> \<open>\<^verbatim>\<open>(?:\.\0*)?(?:[^\d]|$)\<close>: with the optional group, or without it\<close>
  "after_zero r =
     ((case r of [] \<Rightarrow> False | c # cs \<Rightarrow> c = CHR ''.'' \<and> nuls_then_tail cs) \<or> tail_matches r)"

definition after_slash :: "string \<Rightarrow> bool" where
  \<comment> \<open>\<^verbatim>\<open>\s*0...\<close>: \<^verbatim>\<open>0\<close> is not white space, so only the whole run of white space can be
      followed by it\<close>
  "after_slash r =
     (case dropWhile is_space r of [] \<Rightarrow> False | c # cs \<Rightarrow> c = CHR ''0'' \<and> after_zero cs)"

fun zero_division_search :: "string \<Rightarrow> bool" where
  "zero_division_search [] = False"
| "zero_division_search (c # cs) = ((c = CHR ''/'' \<and> after_slash cs) \<or> zero_division_search cs)"

subsection \<open>The degree rewriting\<close>

text \<open>
  \<^verbatim>\<open>re.sub(r'sin\((.*?)\)', r'sin(radians(\1))', expr)\<close>: the text is scanned from the left;
  where the name and an opening parenthesis start, and a closing parenthesis follows with
  no newline before it, the match runs to the first closing parenthesis and is replaced;
  the scan goes on behind the match. Elsewhere one character is copied.
\<close>

definition match_call :: "string \<Rightarrow> string \<Rightarrow> (string \<times> string) option" where
  "match_call name s =
     (if take (length name + 1) s = name @ ''(''
      then (let r = drop (length name + 1) s;
                arg = takeWhile (\<lambda>c. c \<noteq> CHR '')'' \<and> c \<noteq> CHR 0x0A) r
            in case dropWhile (\<lambda>c. c \<noteq> CHR '')'' \<and> c \<noteq> CHR 0x0A) r of
                 [] \<Rightarrow> None
               | c # rest \<Rightarrow> if c = CHR '')'' then Some (arg, rest) else None)
      else None)"

function wrap_radians :: "string \<Rightarrow> string \<Rightarrow> string" where
  "wrap_radians name [] = []"
| "wrap_radians name (c # cs) =
     (case match_call name (c # cs) of
        Some (arg, rest) \<Rightarrow> name @ ''(radians('' @ arg @ ''))'' @ wrap_radians name rest
      | None \<Rightarrow> c # wrap_radians name cs)"
  by pat_completeness auto
termination
proof (relation "measure (\<lambda>(name, s). length s)")
  show "wf (measure (\<lambda>(name, s). length s))" by simp
next
  fix name :: string and c :: char and cs :: string and x2 arg rest
  assume m: "match_call name (c # cs) = Some x2" and x: "(arg, rest) = x2"
  let ?P = "\<lambda>c. c \<noteq> CHR '')'' \<and> c \<noteq> CHR 0x0A"
  let ?r = "drop (length name + 1) (c # cs)"
  from m x obtain d where d: "dropWhile ?P ?r = d # rest"
    by (auto simp: match_call_def Let_def split: if_splits list.splits)
  have "length (dropWhile ?P ?r) \<le> length ?r"
    by (rule length_dropWhile_le)
  with d have "length rest < length ?r" by simp
  then have "length rest < length (c # cs)" by simp
  then show "((name, rest), (name, c # cs)) \<in> measure (\<lambda>(name, s). length s)" by simp
next
  fix name :: string and c :: char and cs :: string
  show "((name, cs), (name, c # cs)) \<in> measure (\<lambda>(name, s). length s)" by simp
qed

definition degrees_rewrite :: "string \<Rightarrow> string" where
  "degrees_rewrite expr =
     wrap_radians ''tan'' (wrap_radians ''cos'' (wrap_radians ''sin'' expr))"

subsection \<open>evaluate\<close>

text \<open>
  \<^verbatim>\<open>eval\<close> is the interpreter's own evaluator, not code of the program: it is the parameter
  \<open>ev\<close>, which maps the rewritten text to the value or the exception it produces.
  \<open>evaluate_body\<close> is the body of the \<^verbatim>\<open>try\<close>, \<open>evaluate\<close> applies the \<^verbatim>\<open>except\<close> clauses
  in their order. The body converts the result three times: in \<^verbatim>\<open>math.isnan(result)\<close>, then
  (\<^verbatim>\<open>or\<close> evaluates its right side only when the left is false) in \<^verbatim>\<open>math.isinf(result)\<close>,
  then in \<^verbatim>\<open>float(result)\<close>, whose value is returned.
\<close>

datatype eval_error =
  DivisionByZero
  | InvalidSyntax
  | InvalidExpression message
  | EvaluationFailed message

definition rewritten :: "string \<Rightarrow> string \<Rightarrow> string" where
  \<comment> \<open>the text handed to \<^verbatim>\<open>eval\<close>: \<^verbatim>\<open>^\<close> replaced, then the degree rewriting in mode \<^verbatim>\<open>deg\<close>\<close>
  "rewritten expr1 angle_mode =
     (let expr2 = replace_char (CHR ''^'') ''**'' expr1
      in if angle_mode = ''deg'' then degrees_rewrite expr2 else expr2)"

definition check_result :: "py_value \<Rightarrow> raised + pyfloat" where
  \<comment> \<open>lines 176 to 179: the test for NaN, the test for an infinity, the returned float\<close>
  "check_result result =
     (case to_double result 0 of
        Inl x \<Rightarrow> Inl (x, HostText)
      | Inr f0 \<Rightarrow>
          if isnan f0 then Inl (ValueError, InvalidResultText)
          else
            (case to_double result 1 of
               Inl x \<Rightarrow> Inl (x, HostText)
             | Inr f1 \<Rightarrow>
                 if isinf f1 then Inl (ValueError, InvalidResultText)
                 else
                   (case to_double result 2 of
                      Inl x \<Rightarrow> Inl (x, HostText)
                    | Inr f2 \<Rightarrow> Inr f2)))"

definition evaluate_body ::
  "(string \<Rightarrow> py_exception + py_value) \<Rightarrow> string \<Rightarrow> string \<Rightarrow> raised + pyfloat" where
  "evaluate_body ev expr0 angle_mode =
     (case sanitize_expression expr0 of
        Inl e \<Rightarrow> Inl e
      | Inr expr1 \<Rightarrow>
          if zero_division_search expr1 then Inl (ZeroDivisionError, DivisionByZeroText)
          else
            (case ev (rewritten expr1 angle_mode) of
               Inl x \<Rightarrow> Inl (x, HostText)
             | Inr result \<Rightarrow> check_result result))"

fun handle_raised :: "raised \<Rightarrow> eval_error" where
  "handle_raised (ZeroDivisionError, m) = DivisionByZero"
| "handle_raised (SyntaxError, m) = InvalidSyntax"
| "handle_raised (ValueError, m) = InvalidExpression m"
| "handle_raised (TypeError, m) = InvalidExpression m"
| "handle_raised (NameError, m) = InvalidExpression m"
| "handle_raised (OverflowError, m) = EvaluationFailed m"
| "handle_raised (OtherException, m) = EvaluationFailed m"

definition evaluate ::
  "(string \<Rightarrow> py_exception + py_value) \<Rightarrow> string \<Rightarrow> string \<Rightarrow> eval_error + pyfloat" where
  "evaluate ev expr angle_mode =
     (case evaluate_body ev expr angle_mode of
        Inl e \<Rightarrow> Inl (handle_raised e)
      | Inr f \<Rightarrow> Inr f)"

text \<open>
  An expression that passes \<open>sanitize_expression\<close> and the search for a division by zero
  and whose value is not a number: \<^verbatim>\<open>(().__class__).__class__\<close> is \<^verbatim>\<open>type\<close>, reached without
  any builtin name, and the expression calls it to make a class and an instance of it.
  The \<^verbatim>\<open>__float__\<close> of the instance pops the list \<^verbatim>\<open>[1e999, 1e0, 1e0]\<close> from its end, so the
  conversions of the instance answer 1.0, 1.0 and then \<^verbatim>\<open>1e999\<close>, which is an infinity.
  \<open>unstable_object\<close> is that instance.
\<close>

definition unstable_expression :: string where
  "unstable_expression =
     ''(().__class__).__class__('X',(),{'__float__':lambda s,l=[1e999,1e0,1e0]:l.pop()})()''"

definition unstable_object :: py_value where
  "unstable_object = PObject (\<lambda>k. if k < 2 then Inr (Finite 1) else Inr PosInf)"

section \<open>Literals and digits of the host language\<close>

subsection \<open>int(text, base)\<close>

text \<open>
  \<^verbatim>\<open>int(text, base)\<close> raises ValueError unless the base is 0 or from 2 to 36. It skips
  white space, takes one sign, for base 0 reads the base off the prefix (a text that
  starts with \<^verbatim>\<open>0\<close> and has no prefix must then denote zero), skips the prefix that
  belongs to base 2, 8 or 16 and one underscore behind it, and reads digits with single
  underscores between them; only white space may follow. The white space of a literal is
  tab to carriage return, space, and the code points 133 and 160. The interpreter's
  configurable limit on the number of digits of a literal is not part of the model.
\<close>

definition is_literal_space :: "char \<Rightarrow> bool" where
  "is_literal_space c = (let n = (of_char c :: nat) in
     (9 \<le> n \<and> n \<le> 13) \<or> n = 32 \<or> n = 133 \<or> n = 160)"

definition digit_value :: "char \<Rightarrow> int" where
  \<comment> \<open>the value of a digit or a letter of either case; 37 for every other character\<close>
  "digit_value c = (let n = (of_char c :: nat) in
     if 48 \<le> n \<and> n \<le> 57 then int n - 48
     else if 97 \<le> n \<and> n \<le> 122 then int n - 87
     else if 65 \<le> n \<and> n \<le> 90 then int n - 55
     else 37)"

fun digits_value :: "int \<Rightarrow> string \<Rightarrow> int \<Rightarrow> int" where
  \<comment> \<open>the digits read from the left, most significant first\<close>
  "digits_value b [] acc = acc"
| "digits_value b (c # cs) acc = digits_value b cs (acc * b + digit_value c)"

fun underscores_ok :: "string \<Rightarrow> bool" where
  \<comment> \<open>no two underscores in a row, none at the end\<close>
  "underscores_ok [] = True"
| "underscores_ok [c] = (c \<noteq> CHR ''_'')"
| "underscores_ok (c # d # cs) =
     ((c \<noteq> CHR ''_'' \<or> d \<noteq> CHR ''_'') \<and> underscores_ok (d # cs))"

definition take_sign :: "string \<Rightarrow> bool \<times> string" where
  "take_sign s =
     (case s of
        [] \<Rightarrow> (False, s)
      | c # r \<Rightarrow>
          if c = CHR ''+'' then (False, r) else if c = CHR ''-'' then (True, r) else (False, s))"

definition prefix_letter :: "string \<Rightarrow> string \<Rightarrow> bool" where
  \<comment> \<open>the text starts with \<^verbatim>\<open>0\<close> and one of the letters\<close>
  "prefix_letter letters s =
     (case s of c # d # _ \<Rightarrow> c = CHR ''0'' \<and> d \<in> set letters | _ \<Rightarrow> False)"

definition detect_base :: "string \<Rightarrow> int \<times> bool" where
  \<comment> \<open>base 0: the base of the literal, and whether it must denote zero\<close>
  "detect_base s =
     (case s of
        [] \<Rightarrow> (10, False)
      | c # _ \<Rightarrow>
          if c \<noteq> CHR ''0'' then (10, False)
          else if prefix_letter ''xX'' s then (16, False)
          else if prefix_letter ''oO'' s then (8, False)
          else if prefix_letter ''bB'' s then (2, False)
          else (10, True))"

definition skip_prefix :: "int \<Rightarrow> string \<Rightarrow> string" where
  "skip_prefix b s =
     (if (b = 16 \<and> prefix_letter ''xX'' s) \<or> (b = 8 \<and> prefix_letter ''oO'' s)
         \<or> (b = 2 \<and> prefix_letter ''bB'' s)
      then (case drop 2 s of [] \<Rightarrow> [] | c # r \<Rightarrow> if c = CHR ''_'' then r else c # r)
      else s)"

definition py_int :: "string \<Rightarrow> int \<Rightarrow> py_exception + int" where
  "py_int text base =
     (if (base \<noteq> 0 \<and> base < 2) \<or> base > 36 then Inl ValueError
      else
        (let s1 = dropWhile is_literal_space text;
             (negative, s2) = take_sign s1;
             (b, zero_only) = (if base = 0 then detect_base s2 else (base, False));
             s3 = skip_prefix b s2;
             ds = takeWhile (\<lambda>c. digit_value c < b \<or> c = CHR ''_'') s3;
             rest = dropWhile (\<lambda>c. digit_value c < b \<or> c = CHR ''_'') s3;
             v = digits_value b (filter (\<lambda>c. c \<noteq> CHR ''_'') ds) 0
         in if ds = [] \<or> hd ds = CHR ''_'' \<or> \<not> underscores_ok ds then Inl ValueError
            else if zero_only \<and> v \<noteq> 0 then Inl ValueError
            else if dropWhile is_literal_space rest \<noteq> [] then Inl ValueError
            else Inr (if negative then - v else v)))"

subsection \<open>float(text) and int(value)\<close>

text \<open>
  \<^verbatim>\<open>float(text)\<close>: white space is stripped at both ends; an underscore must stand between
  two digits and is dropped; what remains is a sign and \<^verbatim>\<open>inf\<close>, \<^verbatim>\<open>infinity\<close> or
  \<^verbatim>\<open>nan\<close> in any case, or a sign and a decimal numeral: digits with at most one point and
  at least one digit, then optionally \<^verbatim>\<open>e\<close> or \<^verbatim>\<open>E\<close>, a sign and digits. The value is
  the numeral's rational rounded to the nearest double, ties to even.
\<close>

definition pow2 :: "int \<Rightarrow> rat" where
  "pow2 p = (if p \<ge> 0 then 2 ^ nat p else 1 / 2 ^ nat (- p))"

definition pow10 :: "int \<Rightarrow> rat" where
  "pow10 p = (if p \<ge> 0 then 10 ^ nat p else 1 / 10 ^ nat (- p))"

definition floor_log2 :: "rat \<Rightarrow> int" where
  \<comment> \<open>for \<open>a > 0\<close>: the \<open>e\<close> with \<open>2 ^ e \<le> a < 2 ^ (e + 1)\<close>\<close>
  "floor_log2 a =
     (let (n, d) = quotient_of a; k = bitlen n - bitlen d
      in if pow2 k \<le> a then k else k - 1)"

definition round_half_even :: "rat \<Rightarrow> int" where
  "round_half_even x =
     (let m = \<lfloor>x\<rfloor>; d = x - of_int m
      in if d > 1 / 2 \<or> (d = 1 / 2 \<and> odd m) then m + 1 else m)"

definition round_double :: "bool \<Rightarrow> rat \<Rightarrow> pyfloat" where
  \<comment> \<open>the double nearest to the magnitude \<open>a \<ge> 0\<close> with the given sign: 53 significant
      bits, the smallest unit \<open>2 ^ - 1074\<close>, an infinity from \<open>2 ^ 1024\<close> on\<close>
  "round_double negative a =
     (if a = 0 then (if negative then NegZero else Finite 0)
      else
        (let p = max (floor_log2 a - 52) (- 1074);
             m = round_half_even (a / pow2 p);
             v = of_int m * pow2 p
         in if m = 0 then (if negative then NegZero else Finite 0)
            else if v \<ge> 2 ^ 1024 then (if negative then NegInf else PosInf)
            else Finite (if negative then - v else v)))"

fun float_underscores_ok :: "char \<Rightarrow> string \<Rightarrow> bool" where
  \<comment> \<open>the first argument is the previous character, NUL at the start\<close>
  "float_underscores_ok prev [] = (prev \<noteq> CHR ''_'')"
| "float_underscores_ok prev (c # cs) =
     ((if c = CHR ''_'' then is_digit prev else (prev \<noteq> CHR ''_'' \<or> is_digit c))
      \<and> float_underscores_ok c cs)"

definition lower_letters :: string where
  "lower_letters = ''abcdefghijklmnopqrstuvwxyz''"

definition upper_letters :: string where
  "upper_letters = ''ABCDEFGHIJKLMNOPQRSTUVWXYZ''"

definition lower_char :: "char \<Rightarrow> char" where
  \<comment> \<open>\<^verbatim>\<open>str.lower\<close> on one character, for the letters \<^verbatim>\<open>A\<close> to \<^verbatim>\<open>Z\<close>\<close>
  "lower_char c =
     (case map_of (zip upper_letters lower_letters) c of None \<Rightarrow> c | Some l \<Rightarrow> l)"

definition upper_char :: "char \<Rightarrow> char" where
  \<comment> \<open>\<^verbatim>\<open>str.upper\<close> on one character, for the letters \<^verbatim>\<open>a\<close> to \<^verbatim>\<open>z\<close>. The program applies
      it to Roman numerals and to hexadecimal digits; a code point from 128 on is left as
      it is here, and neither it nor its upper-case form is a Roman symbol.\<close>
  "upper_char c =
     (case map_of (zip lower_letters upper_letters) c of None \<Rightarrow> c | Some u \<Rightarrow> u)"

definition py_float :: "string \<Rightarrow> py_exception + pyfloat" where
  "py_float text =
     (let s = rev (dropWhile is_literal_space (rev (dropWhile is_literal_space text)))
      in if \<not> float_underscores_ok (CHR 0x00) s then Inl ValueError
         else
           (let (negative, u) = take_sign (filter (\<lambda>c. c \<noteq> CHR ''_'') s);
                word = map lower_char u;
                whole = takeWhile is_digit u;
                r1 = dropWhile is_digit u;
                frac = (case r1 of [] \<Rightarrow> []
                        | c # r \<Rightarrow> if c = CHR ''.'' then takeWhile is_digit r else []);
                r2 = (case r1 of [] \<Rightarrow> []
                      | c # r \<Rightarrow> if c = CHR ''.'' then dropWhile is_digit r else r1);
                mantissa = of_int (digits_value 10 (whole @ frac) 0)
            in if word = ''inf'' \<or> word = ''infinity''
               then Inr (if negative then NegInf else PosInf)
               else if word = ''nan'' then Inr NaN
               else if whole = [] \<and> frac = [] then Inl ValueError
               else
                 (case r2 of
                    [] \<Rightarrow> Inr (round_double negative (mantissa * pow10 (- int (length frac))))
                  | c # r3 \<Rightarrow>
                      if c \<noteq> CHR ''e'' \<and> c \<noteq> CHR ''E'' then Inl ValueError
                      else
                        (let (exp_negative, r4) = take_sign r3;
                             ex = digits_value 10 r4 0
                         in if r4 = [] \<or> \<not> list_all is_digit r4 then Inl ValueError
                            else Inr (round_double negative
                                   (mantissa
                                    * pow10 ((if exp_negative then - ex else ex)
                                             - int (length frac))))))))"

definition int_of_float :: "pyfloat \<Rightarrow> py_exception + int" where
  \<comment> \<open>\<^verbatim>\<open>int(value)\<close>: truncation toward zero; OverflowError for an infinity, ValueError for
      a NaN\<close>
  "int_of_float f =
     (case f of
        Finite q \<Rightarrow> Inr (if q \<ge> 0 then \<lfloor>q\<rfloor> else - \<lfloor>- q\<rfloor>)
      | NegZero \<Rightarrow> Inr 0
      | PosInf \<Rightarrow> Inl OverflowError
      | NegInf \<Rightarrow> Inl OverflowError
      | NaN \<Rightarrow> Inl ValueError)"

subsection \<open>bin, oct and hex\<close>

text \<open>
  \<^verbatim>\<open>bin(n)\<close>, \<^verbatim>\<open>oct(n)\<close> and \<^verbatim>\<open>hex(n)\<close>: a minus sign for a negative number, the prefix,
  and the digits of the magnitude, most significant first, letters in lower case.
\<close>

definition lower_digits :: string where
  "lower_digits = ''0123456789abcdef''"

function magnitude_digits :: "int \<Rightarrow> int \<Rightarrow> string" where
  \<comment> \<open>for a base from 2 to 16 and \<open>n \<ge> 0\<close>\<close>
  "magnitude_digits b n =
     (if n < b \<or> b < 2 then [lower_digits ! nat n]
      else magnitude_digits b (n div b) @ [lower_digits ! nat (n mod b)])"
  by pat_completeness auto
termination
proof (relation "measure (\<lambda>(b, n). nat n)")
  show "wf (measure (\<lambda>(b, n). nat n))" by simp
next
  fix b n :: int
  assume a: "\<not> (n < b \<or> b < 2)"
  then have "n div b < n" by (simp add: int_div_less_self)
  moreover from a have "0 \<le> n div b" by (simp add: pos_imp_zdiv_nonneg_iff)
  ultimately show "((b, n div b), (b, n)) \<in> measure (\<lambda>(b, n). nat n)"
    using a by simp
qed

declare magnitude_digits.simps [simp del]

definition with_prefix :: "string \<Rightarrow> int \<Rightarrow> int \<Rightarrow> string" where
  "with_prefix pre b n =
     (if n < 0 then ''-'' else []) @ pre @ magnitude_digits b \<bar>n\<bar>"

definition py_bin :: "int \<Rightarrow> string" where
  "py_bin n = with_prefix ''0b'' 2 n"

definition py_oct :: "int \<Rightarrow> string" where
  "py_oct n = with_prefix ''0o'' 8 n"

definition py_hex :: "int \<Rightarrow> string" where
  "py_hex n = with_prefix ''0x'' 16 n"

subsection \<open>str(value)\<close>

text \<open>
  \<^verbatim>\<open>str(value)\<close> for a float is the shortest decimal text that reads back as the same
  double. The program does not compute it; where it is called, it is the parameter
  \<open>float_str\<close>. For a NaN, an infinity, a zero and a whole number below \<open>10 ^ 16\<close> in
  magnitude the text is fixed without a search for the shortest digits: it is \<^verbatim>\<open>nan\<close>,
  \<^verbatim>\<open>inf\<close>, \<^verbatim>\<open>-inf\<close>, \<^verbatim>\<open>-0.0\<close>, or the decimal digits of the whole number followed by \<^verbatim>\<open>.0\<close>.
  \<open>float_text shortest\<close> is \<^verbatim>\<open>str\<close> on these floats and \<open>shortest\<close> on every other one.
\<close>

definition float_text :: "(pyfloat \<Rightarrow> string) \<Rightarrow> pyfloat \<Rightarrow> string" where
  "float_text shortest f =
     (case f of
        NaN \<Rightarrow> ''nan''
      | PosInf \<Rightarrow> ''inf''
      | NegInf \<Rightarrow> ''-inf''
      | NegZero \<Rightarrow> ''-0.0''
      | Finite q \<Rightarrow>
          if q = of_int \<lfloor>q\<rfloor> \<and> \<bar>q\<bar> < 10 ^ 16 then with_prefix [] 10 \<lfloor>q\<rfloor> @ ''.0''
          else shortest f)"

section \<open>NumberBaseConverter\<close>

text \<open>
  A numeral system is the integer the program uses for it: 10, 2, 8 and 16 for the
  standard bases, \<open>- 1\<close> for Roman numerals, any other integer for a custom radix.
\<close>

definition ROMAN_MAP :: "(int \<times> string) list" where
  "ROMAN_MAP =
     [(1000, ''M''), (900, ''CM''), (500, ''D''), (400, ''CD''),
      (100, ''C''), (90, ''XC''), (50, ''L''), (40, ''XL''),
      (10, ''X''), (9, ''IX''), (5, ''V''), (4, ''IV''), (1, ''I'')]"


fun roman_emit :: "(int \<times> string) list \<Rightarrow> int \<Rightarrow> string list \<Rightarrow> string list" where
  \<comment> \<open>the \<^verbatim>\<open>for\<close> loop of \<^verbatim>\<open>int_to_roman\<close>; the last argument is the list \<^verbatim>\<open>result\<close>\<close>
  "roman_emit [] num result = result"
| "roman_emit ((val, numeral') # rest) num result =
     (let count = num div val
      in if count \<noteq> 0
         then roman_emit rest (num - val * count)
                (result @ [concat (replicate (nat count) numeral')])
         else roman_emit rest num result)"

definition int_to_roman :: "int \<Rightarrow> raised + string" where
  "int_to_roman num =
     (if num \<le> 0 \<or> num \<ge> 4000 then Inl (ValueError, RomanRangeText)
      else Inr (concat (roman_emit ROMAN_MAP num [])))"

definition roman_values :: "char \<rightharpoonup> int" where
  "roman_values =
     [CHR ''I'' \<mapsto> 1, CHR ''V'' \<mapsto> 5, CHR ''X'' \<mapsto> 10, CHR ''L'' \<mapsto> 50,
      CHR ''C'' \<mapsto> 100, CHR ''D'' \<mapsto> 500, CHR ''M'' \<mapsto> 1000]"

fun roman_scan :: "string \<Rightarrow> int \<Rightarrow> int \<Rightarrow> raised + int" where
  \<comment> \<open>the \<^verbatim>\<open>for\<close> loop of \<^verbatim>\<open>roman_to_int\<close> over the reversed text; the arguments
      are \<^verbatim>\<open>total\<close> and \<^verbatim>\<open>prev_value\<close>\<close>
  "roman_scan [] total' prev_value = Inr total'"
| "roman_scan (c # cs) total' prev_value =
     (case roman_values c of
        None \<Rightarrow> Inl (ValueError, RomanSymbolText)
      | Some val \<Rightarrow>
          if val < prev_value then roman_scan cs (total' - val) val
          else roman_scan cs (total' + val) val)"

definition roman_to_int :: "string \<Rightarrow> raised + int" where
  "roman_to_int roman = roman_scan (rev (map upper_char roman)) 0 0"

definition upper_digits :: string where
  "upper_digits = ''0123456789ABCDEFGHIJKLMNOPQRSTUVWXYZ''"

function custom_loop :: "int \<Rightarrow> int \<Rightarrow> string \<Rightarrow> string" where
  \<comment> \<open>the \<^verbatim>\<open>while\<close> loop of \<^verbatim>\<open>to_custom_base\<close>, reached with \<open>2 \<le> base \<le> 36\<close> only; the
      second half of the guard is that range, which makes the recursion well-founded\<close>
  "custom_loop num base result =
     (if num > 0 \<and> 2 \<le> base
      then custom_loop (num div base) base (result @ [upper_digits ! nat (num mod base)])
      else result)"
  by pat_completeness auto
termination
proof (relation "measure (\<lambda>(num, base, result). nat num)")
  show "wf (measure (\<lambda>(num, base, result). nat num))" by simp
next
  fix num base :: int and result :: string
  assume a: "0 < num \<and> 2 \<le> base"
  then have "num div base < num" by (simp add: int_div_less_self)
  moreover from a have "0 \<le> num div base" by (simp add: pos_imp_zdiv_nonneg_iff)
  ultimately show "((num div base, base, result @ [upper_digits ! nat (num mod base)]),
      (num, base, result)) \<in> measure (\<lambda>(num, base, result). nat num)"
    using a by simp
qed

declare custom_loop.simps [simp del]

definition to_custom_base :: "int \<Rightarrow> int \<Rightarrow> raised + string" where
  "to_custom_base num base =
     (if base < 2 \<or> base > 36 then Inl (ValueError, RadixRangeText)
      else if num = 0 then Inr ''0''
      else
        (let negative = num < 0;
             result = custom_loop \<bar>num\<bar> base [];
             result = (if negative then result @ ''-'' else result)
         in Inr (rev result)))"

text \<open>
  \<open>to_decimal\<close> catches ValueError and TypeError and returns \<^verbatim>\<open>None\<close> for them; an
  OverflowError of \<^verbatim>\<open>float\<close> on a huge integer is not caught and leaves the function:
  the result is \<open>Inl\<close> of the exception, or \<open>Inr\<close> of the optional value.
\<close>

definition catch_value_type :: "py_exception + 'a \<Rightarrow> py_exception + 'a option" where
  \<comment> \<open>\<^verbatim>\<open>except (ValueError, TypeError): return None\<close>\<close>
  "catch_value_type r =
     (case r of
        Inr v \<Rightarrow> Inr (Some v)
      | Inl x \<Rightarrow> if x = ValueError \<or> x = TypeError then Inr None else Inl x)"

definition float_of_parsed :: "py_exception + int \<Rightarrow> py_exception + pyfloat" where
  \<comment> \<open>\<^verbatim>\<open>float(...)\<close> of an integer whose computation may have raised\<close>
  "float_of_parsed r = (case r of Inl x \<Rightarrow> Inl x | Inr n \<Rightarrow> float_of_int n)"

definition to_decimal :: "string \<Rightarrow> int \<Rightarrow> py_exception + pyfloat option" where
  "to_decimal val from_base =
     catch_value_type
       (if from_base = 10 then py_float val
        else if from_base \<in> set [2, 8, 16] then float_of_parsed (py_int val from_base)
        else if from_base = - 1
          then float_of_parsed (case roman_to_int val of Inl e \<Rightarrow> Inl (fst e) | Inr n \<Rightarrow> Inr n)
        else float_of_parsed (py_int val from_base))"

text \<open>
  \<open>from_decimal\<close> catches ValueError, TypeError and OverflowError, which are all the
  exceptions its body raises. \<^verbatim>\<open>str(value)\<close> is the parameter \<open>float_str\<close>.
\<close>

definition from_decimal :: "(pyfloat \<Rightarrow> string) \<Rightarrow> pyfloat \<Rightarrow> int \<Rightarrow> string option" where
  "from_decimal float_str val to_base =
     (case int_of_float val of
        Inl x \<Rightarrow> None
      | Inr int_value \<Rightarrow>
          if to_base = 10 then Some (float_str val)
          else if to_base = 2 then Some (drop 2 (py_bin int_value))
          else if to_base = 8 then Some (drop 2 (py_oct int_value))
          else if to_base = 16 then Some (map upper_char (drop 2 (py_hex int_value)))
          else if to_base = - 1
            then (case int_to_roman int_value of Inl e \<Rightarrow> None | Inr s \<Rightarrow> Some s)
          else (case to_custom_base int_value to_base of Inl e \<Rightarrow> None | Inr s \<Rightarrow> Some s))"

subsection \<open>The shape of the Roman table\<close>

text \<open>
  What the round trip through Roman numerals rests on, as a property of a table that can
  be checked by evaluation: every numeral is one symbol of its value, or two symbols, the
  smaller before the larger, whose difference is its value and which is emitted at most
  once; and no numeral further down the table starts with a symbol larger than the last
  symbol of this one.
\<close>

definition symbol_value :: "char \<Rightarrow> int" where
  "symbol_value c = (case roman_values c of None \<Rightarrow> 0 | Some v \<Rightarrow> v)"

fun numeral_ok :: "int \<Rightarrow> string \<Rightarrow> bool" where
  "numeral_ok v [c] = (roman_values c = Some v)"
| "numeral_ok v [a, b] =
     (roman_values a \<noteq> None \<and> roman_values b \<noteq> None \<and> symbol_value a < symbol_value b
      \<and> symbol_value b - symbol_value a = v)"
| "numeral_ok v s = False"

fun lead_bound :: "(int \<times> string) list \<Rightarrow> int" where
  "lead_bound [] = 0"
| "lead_bound ((v, s) # rest) = max (symbol_value (hd s)) (lead_bound rest)"

fun map_ok :: "int \<Rightarrow> (int \<times> string) list \<Rightarrow> bool" where
  "map_ok u [] = (u \<le> 1)"
| "map_ok u ((v, s) # rest) =
     (0 < v \<and> numeral_ok v s \<and> (length s = 1 \<or> u \<le> 2 * v)
      \<and> lead_bound rest \<le> symbol_value (last s) \<and> map_ok v rest)"

section \<open>HistoryManager\<close>

text \<open>The ledger is the list \<^verbatim>\<open>self.history\<close> of pairs, oldest first.\<close>

type_synonym history = "(string \<times> string) list"




section \<open>CalculatorUI\<close>

text \<open>
  Of the window, the state the handlers read and write: the text of the input line, the
  angle mode, the ledger and the list widget that shows it. \<^verbatim>\<open>str(result)\<close>, the
  interpreter's decimal text of a float, is the parameter \<open>float_str\<close>. An event is a call
  of one handler; \<open>EditDisplay\<close> is the user typing into the input line (it is editable)
  or \<^verbatim>\<open>load_from_history\<close> putting a text there.
\<close>

record calculator_ui =
  display :: string
  angle_mode :: string
  history_manager :: history
  history_list :: "string list"







section \<open>The claims' own notions\<close>

text \<open>
  These definitions follow the words of the specification, not the program: they are what
  the program is compared with.
\<close>

definition described_zero_division :: "string \<Rightarrow> bool" where
  \<comment> \<open>the text contains \<^verbatim>\<open>/\<close>, then optional white space, then \<^verbatim>\<open>0\<close>, optionally a
      decimal point and zero digits, then a character that is not a digit or the end\<close>
  "described_zero_division s =
     (\<exists>pre ws opt rest.
        s = pre @ ''/'' @ ws @ ''0'' @ opt @ rest \<and> list_all is_space ws
        \<and> (opt = [] \<or> (\<exists>k. opt = CHR ''.'' # replicate k (CHR ''0'')))
        \<and> (rest = [] \<or> \<not> is_digit (hd rest)))"


definition normal_digits :: "int \<Rightarrow> int \<Rightarrow> string \<Rightarrow> bool" where
  \<comment> \<open>the normalized digits of \<open>n \<ge> 0\<close> in radix \<open>b\<close>: digits of the alphabet
      \<^verbatim>\<open>0123456789ABCDEFGHIJKLMNOPQRSTUVWXYZ\<close> below the radix (so upper case, and no prefix),
      no leading zero unless the text is \<^verbatim>\<open>0\<close>, most significant digit first, of value \<open>n\<close>\<close>
  "normal_digits b n s =
     (s \<noteq> [] \<and> list_all (\<lambda>c. c \<in> set (take (nat b) upper_digits)) s
      \<and> (s = ''0'' \<or> hd s \<noteq> CHR ''0'') \<and> digits_value b s 0 = n)"

definition normal_form :: "int \<Rightarrow> int \<Rightarrow> string \<Rightarrow> bool" where
  \<comment> \<open>the normalized text of an integer: a leading \<^verbatim>\<open>-\<close> exactly when it is negative,
      then the normalized digits of its magnitude\<close>
  "normal_form b n s =
     (if n < 0 then s \<noteq> [] \<and> hd s = CHR ''-'' \<and> normal_digits b (- n) (tl s)
      else normal_digits b n s)"


subsection \<open>The literals of a number\<close>













section \<open>Properties of the evaluator\<close>

lemma split_pow_example:
  "split_on is_split_char ''pow(1.5,2.5)'' = [''pow'', ''1.5,2.5'', '''']"
  by (simp add: is_split_char_def)

lemma sanitize_pow_example:
  "sanitize_expression ''pow(1.5,2.5)'' = Inl (ValueError, MultipleDecimalPoints)"
  by (simp add: sanitize_expression_def strip_def is_space_def is_split_char_def)

text \<open>
  C10. The expression \<^verbatim>\<open>pow(1.5,2.5)\<close> uses a whitelisted function and two well-formed
  numbers; the split on \<^verbatim>\<open>+ - * / ( )\<close> leaves the part \<^verbatim>\<open>1.5,2.5\<close> with two decimal
  points, and the evaluation fails as a malformed number in either angle mode, whatever
  the host evaluator would have computed.
\<close>

theorem pow_two_decimals_malformed:
  "evaluate ev ''pow(1.5,2.5)'' mode = Inl (InvalidExpression MultipleDecimalPoints)
   \<and> split_on is_split_char (strip ''pow(1.5,2.5)'') = [''pow'', ''1.5,2.5'', '''']
   \<and> count_list ''1.5,2.5'' (CHR ''.'') = 2"
  by (simp add: evaluate_def evaluate_body_def sanitize_expression_def strip_def
      is_space_def is_split_char_def)

text \<open>
  C1. In mode \<^verbatim>\<open>deg\<close> the pattern for \<^verbatim>\<open>sin(\<close> also matches inside \<^verbatim>\<open>asin(\<close>, and
  likewise for \<^verbatim>\<open>acos(\<close> and \<^verbatim>\<open>atan(\<close>: the argument of an inverse function is wrapped
  in \<^verbatim>\<open>radians\<close> too. The text evaluated for \<^verbatim>\<open>asin(1)\<close> in degrees is
  \<^verbatim>\<open>asin(radians(1))\<close>, not the text evaluated in radians.
\<close>

theorem inverse_functions_are_rewritten:
  "rewritten ''asin(1)'' ''deg'' = ''asin(radians(1))''
   \<and> rewritten ''asin(1)'' ''rad'' = ''asin(1)''
   \<and> rewritten ''acos(1)+atan(1)'' ''deg'' = ''acos(radians(1))+atan(radians(1))''
   \<and> evaluate ev ''asin(1)'' ''deg'' = evaluate ev ''asin(radians(1))'' ''rad''"
  by (simp add: evaluate_def evaluate_body_def sanitize_expression_def strip_def
      is_space_def is_split_char_def after_slash_def after_zero_def tail_matches_def
      is_digit_def rewritten_def degrees_rewrite_def match_call_def replace_char_def)

text \<open>
  The search for a division by zero fires exactly on the texts of the described shape:
  the optional group of the pattern never decides a match, because the point that would
  start it is itself a character that is not a digit.
\<close>

lemma tail_matches_iff: "tail_matches r = (r = [] \<or> \<not> is_digit (hd r))"
  by (cases r) (auto simp: tail_matches_def is_digit_def)

lemma after_zero_iff: "after_zero r = (r = [] \<or> \<not> is_digit (hd r))"
  by (cases r) (auto simp: after_zero_def tail_matches_iff is_digit_def)

lemma after_slash_iff:
  "after_slash r
     = (\<exists>ws rest. r = ws @ ''0'' @ rest \<and> list_all is_space ws
          \<and> (rest = [] \<or> \<not> is_digit (hd rest)))"
proof
  assume a: "after_slash r"
  then obtain rest where d: "dropWhile is_space r = CHR ''0'' # rest" and z: "after_zero rest"
    by (auto simp: after_slash_def split: list.splits)
  have "r = takeWhile is_space r @ ''0'' @ rest"
    using takeWhile_dropWhile_id [of is_space r] d by simp
  moreover have "list_all is_space (takeWhile is_space r)"
    by (simp add: list_all_iff) (meson set_takeWhileD)
  ultimately show "\<exists>ws rest. r = ws @ ''0'' @ rest \<and> list_all is_space ws
      \<and> (rest = [] \<or> \<not> is_digit (hd rest))"
    using z after_zero_iff by blast
next
  assume "\<exists>ws rest. r = ws @ ''0'' @ rest \<and> list_all is_space ws
      \<and> (rest = [] \<or> \<not> is_digit (hd rest))"
  then obtain ws rest where r: "r = ws @ ''0'' @ rest" and ws: "list_all is_space ws"
    and t: "rest = [] \<or> \<not> is_digit (hd rest)" by blast
  have "\<not> is_space (CHR ''0'')" by (simp add: is_space_def)
  with ws have "dropWhile is_space r = CHR ''0'' # rest"
    unfolding r by (simp add: dropWhile_append list_all_iff)
  with t show "after_slash r" by (simp add: after_slash_def after_zero_iff)
qed

lemma zero_division_search_iff:
  "zero_division_search s
     = (\<exists>pre ws rest. s = pre @ ''/'' @ ws @ ''0'' @ rest \<and> list_all is_space ws
          \<and> (rest = [] \<or> \<not> is_digit (hd rest)))"
proof (induction s)
  case Nil
  show ?case by simp
next
  case (Cons c s)
  let ?R = "\<lambda>u. \<exists>pre ws rest. u = pre @ ''/'' @ ws @ ''0'' @ rest \<and> list_all is_space ws
          \<and> (rest = [] \<or> \<not> is_digit (hd rest))"
  show ?case
  proof
    assume "zero_division_search (c # s)"
    then consider "c = CHR ''/''" "after_slash s" | "zero_division_search s" by auto
    then show "?R (c # s)"
    proof cases
      case 1
      then obtain ws rest where "s = ws @ ''0'' @ rest" "list_all is_space ws"
        "rest = [] \<or> \<not> is_digit (hd rest)"
        unfolding after_slash_iff by blast
      with 1(1) have "c # s = [] @ ''/'' @ ws @ ''0'' @ rest \<and> list_all is_space ws
          \<and> (rest = [] \<or> \<not> is_digit (hd rest))" by simp
      then show ?thesis by blast
    next
      case 2
      with Cons.IH obtain pre ws rest where "s = pre @ ''/'' @ ws @ ''0'' @ rest"
        "list_all is_space ws" "rest = [] \<or> \<not> is_digit (hd rest)" by blast
      then have "c # s = (c # pre) @ ''/'' @ ws @ ''0'' @ rest \<and> list_all is_space ws
          \<and> (rest = [] \<or> \<not> is_digit (hd rest))" by simp
      then show ?thesis by blast
    qed
  next
    assume "?R (c # s)"
    then obtain pre ws rest where e: "c # s = pre @ ''/'' @ ws @ ''0'' @ rest"
      and ws: "list_all is_space ws" and t: "rest = [] \<or> \<not> is_digit (hd rest)" by blast
    show "zero_division_search (c # s)"
    proof (cases pre)
      case Nil
      with e have "c = CHR ''/''" "s = ws @ ''0'' @ rest" by simp_all
      with ws t have "c = CHR ''/'' \<and> after_slash s" unfolding after_slash_iff by blast
      then show ?thesis by simp
    next
      case (Cons d pre')
      with e have "s = pre' @ ''/'' @ ws @ ''0'' @ rest" by simp
      with ws t Cons.IH have "zero_division_search s" by blast
      then show ?thesis by simp
    qed
  qed
qed

lemma zero_division_search_described:
  "zero_division_search s = described_zero_division s"
proof
  assume "zero_division_search s"
  then obtain pre ws rest where "s = pre @ ''/'' @ ws @ ''0'' @ [] @ rest"
    "list_all is_space ws" "rest = [] \<or> \<not> is_digit (hd rest)"
    unfolding zero_division_search_iff by auto
  then show "described_zero_division s" unfolding described_zero_division_def by blast
next
  assume "described_zero_division s"
  then obtain pre ws opt rest where s: "s = pre @ ''/'' @ ws @ ''0'' @ opt @ rest"
    and ws: "list_all is_space ws"
    and opt: "opt = [] \<or> (\<exists>k. opt = CHR ''.'' # replicate k (CHR ''0''))"
    and t: "rest = [] \<or> \<not> is_digit (hd rest)"
    unfolding described_zero_division_def by blast
  have "opt @ rest = [] \<or> \<not> is_digit (hd (opt @ rest))"
    using opt t by (auto simp: is_digit_def)
  with s ws show "zero_division_search s" unfolding zero_division_search_iff by blast
qed

text \<open>
  C3. The search for a division by a literal zero also fires on \<^verbatim>\<open>1/0.5\<close>: behind the
  \<^verbatim>\<open>0\<close> the optional group is skipped and the point is the character that is not a
  digit. The evaluation of \<^verbatim>\<open>1/0.5\<close> fails with a division by zero; it does not yield 2.
\<close>

theorem nonzero_divisor_flagged:
  "zero_division_search ''1/0.5''
   \<and> evaluate ev ''1/0.5'' mode = Inl DivisionByZero
   \<and> evaluate ev ''1/0'' ''deg'' = Inl DivisionByZero"
  by (simp add: evaluate_def evaluate_body_def sanitize_expression_def strip_def
      is_space_def is_split_char_def after_slash_def after_zero_def tail_matches_def
      is_digit_def)

text \<open>
  When the host evaluator returns an integer or a float, the three conversions agree:
  a value returned by \<open>evaluate\<close> is then neither a NaN nor an infinity, and a NaN or an
  infinity fails with the invalid-result error (a ValueError whose message is the
  invalid-result text) instead of being returned.
\<close>

lemma numeric_result_finite:
  assumes "sanitize_expression expr = Inr expr1" and "\<not> zero_division_search expr1"
    and "ev (rewritten expr1 mode) = Inr result"
    and "(\<exists>n. result = PInt n) \<or> (\<exists>g. result = PFloat g)"
  shows "(evaluate ev expr mode = Inr f \<longrightarrow> \<not> isnan f \<and> \<not> isinf f)
    \<and> (to_double result 0 = Inr g \<and> (isnan g \<or> isinf g)
         \<longrightarrow> evaluate ev expr mode = Inl (InvalidExpression InvalidResultText))"
  using assms
  by (auto simp: evaluate_def evaluate_body_def check_result_def split: sum.splits if_splits)

text \<open>
  C6. The value that \<open>evaluate\<close> returns is not the value it tested: the test for NaN, the
  test for an infinity and the returned \<^verbatim>\<open>float(result)\<close> are three conversions of the
  result. The expression below passes both checks before the evaluation and is handed
  unchanged to the host evaluator, where it builds an object whose \<^verbatim>\<open>__float__\<close> answers
  1.0, 1.0 and then an infinity: both tests pass and \<open>evaluate\<close> succeeds with an infinite
  value.
\<close>

theorem unstable_result_returned_infinite:
  "sanitize_expression unstable_expression = Inr unstable_expression
   \<and> \<not> zero_division_search unstable_expression
   \<and> rewritten unstable_expression ''deg'' = unstable_expression
   \<and> evaluate (\<lambda>s. if s = unstable_expression then Inr unstable_object else Inl SyntaxError)
         unstable_expression ''deg'' = Inr PosInf
   \<and> isinf PosInf"
  by (simp add: unstable_expression_def unstable_object_def evaluate_def evaluate_body_def
      check_result_def sanitize_expression_def strip_def is_space_def is_split_char_def
      after_slash_def after_zero_def tail_matches_def is_digit_def rewritten_def
      degrees_rewrite_def match_call_def replace_char_def isnan_def isinf_def)





section \<open>Properties of the converter\<close>

subsection \<open>Roman numerals\<close>

lemma roman_values_simps:
  "roman_values c = Some v \<Longrightarrow> upper_char c = c \<and> 0 < v"
  by (auto simp: roman_values_def upper_char_def lower_letters_def upper_letters_def
      split: if_splits)

lemma map_ok_ROMAN_MAP: "map_ok 4000 ROMAN_MAP"
  by (simp add: ROMAN_MAP_def roman_values_def symbol_value_def)

lemma roman_emit_acc: "roman_emit m num acc = acc @ roman_emit m num []"
proof (induction m arbitrary: num acc)
  case Nil
  show ?case by simp
next
  case (Cons e m)
  obtain v s where e: "e = (v, s)" by (cases e)
  show ?case
    using Cons.IH [of "num - v * (num div v)" "acc @ [concat (replicate (nat (num div v)) s)]"]
      Cons.IH [of "num - v * (num div v)" "[concat (replicate (nat (num div v)) s)]"]
      Cons.IH [of num acc]
    by (simp add: e Let_def)
qed

lemma roman_emit_Cons:
  "concat (roman_emit ((v, s) # rest) num [])
     = concat (replicate (nat (num div v)) s) @ concat (roman_emit rest (num mod v) [])"
proof (cases "num div v = 0")
  case True
  then have "num mod v = num" by (metis add.left_neutral mult_zero_right mult_div_mod_eq)
  with True show ?thesis by (simp add: Let_def)
next
  case False
  have m: "num - v * (num div v) = num mod v" by (simp add: minus_mult_div_eq_mod)
  from False show ?thesis
    using roman_emit_acc [of rest "num mod v" "[concat (replicate (nat (num div v)) s)]"]
    by (simp add: Let_def m)
qed

lemma scan_single:
  "roman_values c = Some v \<Longrightarrow> p \<le> v
   \<Longrightarrow> roman_scan (replicate k c @ tail) t p
       = roman_scan tail (t + int k * v) (if k = 0 then p else v)"
proof (induction k arbitrary: t p)
  case 0
  show ?case by simp
next
  case (Suc k)
  from Suc.prems have "roman_scan (replicate (Suc k) c @ tail) t p
      = roman_scan (replicate k c @ tail) (t + v) v" by simp
  also have "\<dots> = roman_scan tail (t + v + int k * v) (if k = 0 then v else v)"
    using Suc.IH [of v "t + v"] Suc.prems by simp
  finally show ?case by (simp add: algebra_simps)
qed

lemma rev_concat_replicate_single: "rev (concat (replicate k [c])) = replicate k c"
  by (induction k) (simp_all add: replicate_append_same)

lemma scan_numeral:
  assumes ok: "numeral_ok v s" and k: "length s = 1 \<or> k \<le> 1"
    and p: "p \<le> symbol_value (last s)" and v: "0 < v"
  shows "roman_scan (rev (concat (replicate k s)) @ tail) t p
       = roman_scan tail (t + int k * v) (if k = 0 then p else symbol_value (hd s))"
proof (cases "(v, s)" rule: numeral_ok.cases)
  case (1 v' c)
  then have s: "s = [c]" and rv: "roman_values c = Some v" using ok by auto
  from p s rv have "p \<le> v" by (simp add: symbol_value_def)
  from scan_single [OF rv this, of k tail t] s rv show ?thesis
    by (simp add: rev_concat_replicate_single symbol_value_def)
next
  case (2 v' a b)
  then have s: "s = [a, b]" by simp
  from ok s obtain va vb where a: "roman_values a = Some va" and b: "roman_values b = Some vb"
    and lt: "va < vb" and d: "vb - va = v"
    by (auto simp: symbol_value_def)
  from k s have "k = 0 \<or> k = 1" by auto
  then show ?thesis
  proof
    assume "k = 0" then show ?thesis by simp
  next
    assume k1: "k = 1"
    from p s b have "p \<le> vb" by (simp add: symbol_value_def)
    with k1 s a b lt have lhs: "roman_scan (rev (concat (replicate k s)) @ tail) t p
        = roman_scan tail (t + vb - va) va" by simp
    from d k1 have tot: "t + vb - va = t + int k * v" by simp
    from k1 s a have lead: "(if k = 0 then p else symbol_value (hd s)) = va"
      by (simp add: symbol_value_def)
    show ?thesis by (simp only: lhs tot lead)
  qed
qed (use ok in simp_all)

lemma scan_emitted:
  "map_ok u m \<Longrightarrow> 0 \<le> num \<Longrightarrow> num < u
   \<Longrightarrow> \<exists>p. 0 \<le> p \<and> p \<le> lead_bound m
        \<and> (\<forall>t tail. roman_scan (rev (concat (roman_emit m num [])) @ tail) t 0
              = roman_scan tail (t + num) p)"
proof (induction m arbitrary: u num)
  case Nil
  then have "num = 0" by simp
  then show ?case by auto
next
  case (Cons e m)
  obtain v s where e: "e = (v, s)" by (cases e)
  from Cons.prems e have v: "0 < v" and ok: "numeral_ok v s"
    and cnt: "length s = 1 \<or> u \<le> 2 * v"
    and lb: "lead_bound m \<le> symbol_value (last s)" and rest: "map_ok v m"
    by auto
  let ?k = "num div v" and ?r = "num mod v"
  from v Cons.prems have r: "0 \<le> ?r" "?r < v" by simp_all
  from v Cons.prems have k0: "0 \<le> ?k" by (simp add: pos_imp_zdiv_nonneg_iff)
  from Cons.IH [OF rest r] obtain p where p: "0 \<le> p" "p \<le> lead_bound m"
    and sc: "\<And>t tail. roman_scan (rev (concat (roman_emit m ?r [])) @ tail) t 0
              = roman_scan tail (t + ?r) p"
    by blast
  have k1: "length s = 1 \<or> nat ?k \<le> 1"
  proof (cases "length s = 1")
    case True then show ?thesis by simp
  next
    case False
    with cnt have "u \<le> 2 * v" by simp
    with Cons.prems have "num < 2 * v" by simp
    moreover have "v * ?k \<le> num"
      using mult_div_mod_eq [of v num] r(1) by linarith
    ultimately have "v * ?k < v * 2" by simp
    with v have "?k < 2" by (simp only: mult_less_cancel_left_pos)
    then have "nat ?k \<le> 1" by linarith
    then show ?thesis by simp
  qed
  from p lb have pl: "p \<le> symbol_value (last s)" by simp
  let ?p = "if nat ?k = 0 then p else symbol_value (hd s)"
  have hd_nonneg: "0 \<le> symbol_value (hd s)"
    by (auto simp: symbol_value_def dest: roman_values_simps split: option.splits)
  have "0 \<le> ?p \<and> ?p \<le> lead_bound (e # m)"
    using p hd_nonneg by (auto simp: e)
  moreover have "\<forall>t tail. roman_scan (rev (concat (roman_emit (e # m) num [])) @ tail) t 0
      = roman_scan tail (t + num) ?p"
  proof (intro allI)
    fix t tail
    have "roman_scan (rev (concat (roman_emit (e # m) num [])) @ tail) t 0
        = roman_scan (rev (concat (roman_emit m ?r [])) @ (rev (concat (replicate (nat ?k) s)) @ tail)) t 0"
      unfolding e roman_emit_Cons by simp
    also have "\<dots> = roman_scan (rev (concat (replicate (nat ?k) s)) @ tail) (t + ?r) p"
      by (rule sc)
    also have "\<dots> = roman_scan tail (t + ?r + int (nat ?k) * v) ?p"
      by (rule scan_numeral [OF ok k1 pl v])
    also have "t + ?r + int (nat ?k) * v = t + num"
      using k0 by simp
    finally show "roman_scan (rev (concat (roman_emit (e # m) num [])) @ tail) t 0
      = roman_scan tail (t + num) ?p" .
  qed
  ultimately show ?case by blast
qed

lemma emitted_symbols:
  "map_ok u m \<Longrightarrow> c \<in> set (concat (roman_emit m num [])) \<Longrightarrow> upper_char c = c"
proof (induction m arbitrary: u num)
  case Nil
  then show ?case by simp
next
  case (Cons e m)
  obtain v s where e: "e = (v, s)" by (cases e)
  from Cons.prems e have ok: "numeral_ok v s" and rest: "map_ok v m" by auto
  have "set (concat (replicate (nat (num div v)) s)) \<subseteq> set s"
    by auto
  with Cons.prems(2) have "c \<in> set s \<or> c \<in> set (concat (roman_emit m (num mod v) []))"
    unfolding e roman_emit_Cons by auto
  then show ?case
  proof
    assume "c \<in> set s"
    with ok show ?thesis
      by (cases "(v, s)" rule: numeral_ok.cases) (auto dest: roman_values_simps)
  next
    assume "c \<in> set (concat (roman_emit m (num mod v) []))"
    with Cons.IH [OF rest] show ?thesis by blast
  qed
qed

text \<open>
  C8. For every \<open>n\<close> from 1 to 3999, \<open>int_to_roman\<close> returns a numeral and
  \<open>roman_to_int\<close> of that numeral is \<open>n\<close>; for \<open>n \<le> 0\<close> and for \<open>n \<ge> 4000\<close>
  \<open>int_to_roman\<close> raises its ValueError.
\<close>

theorem roman_round_trip:
  "(0 < n \<and> n < 4000 \<longrightarrow> (\<exists>s. int_to_roman n = Inr s \<and> roman_to_int s = Inr n))
   \<and> (n \<le> 0 \<or> n \<ge> 4000 \<longrightarrow> int_to_roman n = Inl (ValueError, RomanRangeText))"
proof (intro conjI impI)
  assume n: "0 < n \<and> n < 4000"
  let ?s = "concat (roman_emit ROMAN_MAP n [])"
  from n have a: "int_to_roman n = Inr ?s" by (simp add: int_to_roman_def)
  have up: "map upper_char ?s = ?s"
    by (rule map_idI) (rule emitted_symbols [OF map_ok_ROMAN_MAP])
  from n scan_emitted [OF map_ok_ROMAN_MAP, of n] obtain p where
    "\<forall>t tail. roman_scan (rev ?s @ tail) t 0 = roman_scan tail (t + n) p"
    by auto
  then have "roman_scan (rev ?s @ []) 0 0 = roman_scan [] (0 + n) p" by blast
  then have "roman_to_int ?s = Inr n" by (simp add: roman_to_int_def up)
  with a show "\<exists>s. int_to_roman n = Inr s \<and> roman_to_int s = Inr n" by blast
next
  assume "n \<le> 0 \<or> n \<ge> 4000"
  then show "int_to_roman n = Inl (ValueError, RomanRangeText)"
    by (auto simp: int_to_roman_def)
qed

theorem roman_round_trip_witness:
  "int_to_roman 1994 = Inr ''MCMXCIV'' \<and> roman_to_int ''MCMXCIV'' = Inr 1994
   \<and> int_to_roman 0 = Inl (ValueError, RomanRangeText)
   \<and> int_to_roman 4000 = Inl (ValueError, RomanRangeText)"
proof -
  have a: "int_to_roman 1994 = Inr ''MCMXCIV''"
    by (simp add: int_to_roman_def ROMAN_MAP_def)
  from roman_round_trip [of 1994] obtain s where
    "int_to_roman 1994 = Inr s" and b: "roman_to_int s = Inr 1994"
    by auto
  with a have "s = ''MCMXCIV''" by simp
  with b have c: "roman_to_int ''MCMXCIV'' = Inr 1994" by simp
  from roman_round_trip [of 0] have d: "int_to_roman 0 = Inl (ValueError, RomanRangeText)"
    by simp
  from roman_round_trip [of 4000]
  have e: "int_to_roman 4000 = Inl (ValueError, RomanRangeText)"
    by simp
  from a c d e show ?thesis by simp
qed

subsection \<open>Literals\<close>

lemma py_int_empty: "py_int [] b = Inl ValueError"
  by (simp add: py_int_def take_sign_def detect_base_def skip_prefix_def prefix_letter_def
      Let_def)

lemma py_float_empty: "py_float [] = Inl ValueError"
  by (simp add: py_float_def take_sign_def Let_def)

lemma float_of_int_small: "\<bar>n\<bar> < 2 ^ 53 \<Longrightarrow> float_of_int n = Inr (Finite (of_int n))"
  by (simp add: float_of_int_def Let_def bitlen_le_iff_power)

text \<open>
  C4. On the empty text \<open>to_decimal\<close> returns \<^verbatim>\<open>None\<close> for base 10, for 2, 8 and 16 and
  for every custom radix, but for Roman numerals (\<open>- 1\<close>) it returns \<open>0.0\<close>: the loop of
  \<open>roman_to_int\<close> does not run and the total 0 is returned.
\<close>

theorem empty_roman_text_is_zero:
  "to_decimal [] b = (if b = - 1 then Inr (Some (Finite 0)) else Inr None)"
  by (simp add: to_decimal_def catch_value_type_def float_of_parsed_def py_int_empty
      py_float_empty roman_to_int_def float_of_int_small)



















































subsection \<open>Positional digits\<close>

lemma digits_value_append:
  "digits_value b (xs @ ys) acc = digits_value b ys (digits_value b xs acc)"
  by (induction xs arbitrary: acc) simp_all

lemma upper_digits_table:
  "list_all (\<lambda>k. digit_value (upper_digits ! k) = int k
      \<and> (k = 0 \<or> upper_digits ! k \<noteq> CHR ''0'')) [0..<36]"
  by (simp add: upt_rec [of _ "numeral _"] upt_rec [of 0] upper_digits_def digit_value_def)

lemma lower_digits_table:
  "list_all (\<lambda>k. upper_char (lower_digits ! k) = upper_digits ! k) [0..<16]"
  by (simp add: upt_rec [of _ "numeral _"] upt_rec [of 0] upper_digits_def lower_digits_def
      upper_char_def lower_letters_def upper_letters_def)

lemma upper_digit:
  assumes "0 \<le> k" "k < 36"
  shows "digit_value (upper_digits ! nat k) = k"
    and "0 < k \<Longrightarrow> upper_digits ! nat k \<noteq> CHR ''0''"
proof -
  from assms have "nat k \<in> set [0..<36]" by simp
  with upper_digits_table have
    "digit_value (upper_digits ! nat k) = int (nat k)
      \<and> (nat k = 0 \<or> upper_digits ! nat k \<noteq> CHR ''0'')"
    unfolding list_all_iff by blast
  with assms show "digit_value (upper_digits ! nat k) = k"
    and "0 < k \<Longrightarrow> upper_digits ! nat k \<noteq> CHR ''0''" by simp_all
qed

lemma lower_digit:
  assumes "0 \<le> k" "k < 16"
  shows "upper_char (lower_digits ! nat k) = upper_digits ! nat k"
proof -
  from assms have "nat k \<in> set [0..<16]" by simp
  with lower_digits_table show ?thesis unfolding list_all_iff by blast
qed

lemma upper_digit_in_alphabet:
  assumes "0 \<le> k" "k < b" "b \<le> 36"
  shows "upper_digits ! nat k \<in> set (take (nat b) upper_digits)"
proof -
  have len: "length upper_digits = 36" by (simp add: upper_digits_def)
  from assms have "nat k < nat b" "nat b \<le> 36" by simp_all
  with len have "nat k < length (take (nat b) upper_digits)" by simp
  then have "take (nat b) upper_digits ! nat k \<in> set (take (nat b) upper_digits)"
    by (rule nth_mem)
  moreover from \<open>nat k < nat b\<close> have "take (nat b) upper_digits ! nat k = upper_digits ! nat k"
    by (rule nth_take)
  ultimately show ?thesis by simp
qed

lemma custom_loop_acc: "custom_loop n b acc = acc @ custom_loop n b []"
proof (induction "nat n" arbitrary: n acc rule: less_induct)
  case less
  show ?case
  proof (cases "n > 0 \<and> 2 \<le> b")
    case True
    let ?d = "upper_digits ! nat (n mod b)"
    from True have "n div b < n" by (simp add: int_div_less_self)
    with True have lt: "nat (n div b) < nat n" by simp
    have unfold_acc: "custom_loop n b acc = custom_loop (n div b) b (acc @ [?d])"
      by (subst custom_loop.simps) (simp add: True)
    have unfold_nil: "custom_loop n b [] = custom_loop (n div b) b [?d]"
      by (subst custom_loop.simps) (simp add: True)
    have "custom_loop (n div b) b (acc @ [?d]) = (acc @ [?d]) @ custom_loop (n div b) b []"
      by (rule less [OF lt])
    moreover have "custom_loop (n div b) b [?d] = [?d] @ custom_loop (n div b) b []"
      by (rule less [OF lt])
    ultimately show ?thesis by (simp add: unfold_acc unfold_nil)
  next
    case False
    have "custom_loop n b acc = acc" "custom_loop n b [] = []"
      by (subst custom_loop.simps, simp add: False)+
    then show ?thesis by simp
  qed
qed

lemma custom_loop_step:
  assumes "0 < n" "2 \<le> b"
  shows "rev (custom_loop n b [])
    = rev (custom_loop (n div b) b []) @ [upper_digits ! nat (n mod b)]"
proof -
  have "custom_loop n b [] = custom_loop (n div b) b [upper_digits ! nat (n mod b)]"
    by (subst custom_loop.simps) (simp add: assms)
  also have "\<dots> = [upper_digits ! nat (n mod b)] @ custom_loop (n div b) b []"
    by (rule custom_loop_acc)
  finally show ?thesis by simp
qed

lemma custom_loop_zero: "n \<le> 0 \<Longrightarrow> custom_loop n b [] = []"
  by (subst custom_loop.simps) simp

lemma custom_digits_normal:
  assumes b: "2 \<le> b" "b \<le> 36"
  shows "0 < n \<Longrightarrow> normal_digits b n (rev (custom_loop n b []))"
proof (induction "nat n" arbitrary: n rule: less_induct)
  case less
  let ?d = "upper_digits ! nat (n mod b)"
  let ?q = "rev (custom_loop (n div b) b [])"
  from b have mb: "0 \<le> n mod b" "n mod b < b" by simp_all
  with b have r: "0 \<le> n mod b" "n mod b < b" "n mod b < 36" by linarith+
  have step: "rev (custom_loop n b []) = ?q @ [?d]"
    by (rule custom_loop_step [OF less.prems b(1)])
  have dv: "digit_value ?d = n mod b" using r by (simp add: upper_digit)
  have da: "?d \<in> set (take (nat b) upper_digits)"
    using r b by (simp add: upper_digit_in_alphabet)
  show ?case
  proof (cases "n div b = 0")
    case True
    then have q: "?q = []" by (simp add: custom_loop_zero)
    from True mult_div_mod_eq [of b n] have nm: "n mod b = n" by simp
    with less.prems r have "?d \<noteq> CHR ''0''" by (simp add: upper_digit)
    with dv da nm show ?thesis by (simp add: normal_digits_def step q)
  next
    case False
    from less.prems b have "0 \<le> n div b" by (simp add: pos_imp_zdiv_nonneg_iff)
    with False have pos: "0 < n div b" by simp
    from less.prems b have "n div b < n" by (simp add: int_div_less_self)
    with pos have "nat (n div b) < nat n" by simp
    from less.hyps [OF this pos] have ih: "normal_digits b (n div b) ?q" .
    then have ne: "?q \<noteq> []" and h: "hd ?q \<noteq> CHR ''0''"
      and al: "list_all (\<lambda>c. c \<in> set (take (nat b) upper_digits)) ?q"
      and val: "digits_value b ?q 0 = n div b"
      using pos by (auto simp: normal_digits_def digit_value_def)
    have "digits_value b (?q @ [?d]) 0 = (n div b) * b + n mod b"
      by (simp add: digits_value_append val dv)
    then have v: "digits_value b (?q @ [?d]) 0 = n" by simp
    from ne h have "hd (?q @ [?d]) \<noteq> CHR ''0''" by simp
    with ne al da v show ?thesis by (simp add: normal_digits_def step)
  qed
qed

lemma magnitude_digits_zero: "magnitude_digits b 0 = ''0''"
proof -
  have c: "(0::int) < b \<or> b < 2" by arith
  have "magnitude_digits b 0 = [lower_digits ! nat 0]"
    by (subst magnitude_digits.simps) (simp only: c if_True)
  then show ?thesis by (simp add: lower_digits_def)
qed

lemma normal_zero:
  assumes "2 \<le> b" "b \<le> 36"
  shows "normal_digits b 0 ''0''"
proof -
  have z: "upper_digits ! nat 0 = CHR ''0''" by (simp add: upper_digits_def)
  from assms upper_digit_in_alphabet [of 0 b] z
  have "CHR ''0'' \<in> set (take (nat b) upper_digits)" by simp
  then show ?thesis by (simp add: normal_digits_def digit_value_def)
qed

subsection \<open>Round trip and custom radix\<close>

lemma magnitude_digits_map:
  assumes b: "2 \<le> b" "b \<le> 16"
    and f: "\<And>k. 0 \<le> k \<Longrightarrow> k < b \<Longrightarrow> f (lower_digits ! nat k) = upper_digits ! nat k"
  shows "0 < n \<Longrightarrow> map f (magnitude_digits b n) = rev (custom_loop n b [])"
proof (induction "nat n" arbitrary: n rule: less_induct)
  case less
  from b have r: "0 \<le> n mod b" "n mod b < b" by simp_all
  have step: "rev (custom_loop n b [])
      = rev (custom_loop (n div b) b []) @ [upper_digits ! nat (n mod b)]"
    by (rule custom_loop_step [OF less.prems b(1)])
  show ?case
  proof (cases "n < b")
    case True
    with less.prems have z: "n div b = 0" "n mod b = n" by simp_all
    have "magnitude_digits b n = [lower_digits ! nat n]"
      by (subst magnitude_digits.simps) (simp add: True)
    with less.prems True z show ?thesis by (simp add: step custom_loop_zero f)
  next
    case False
    with b have pos: "0 < n div b" by (simp add: pos_imp_zdiv_pos_iff)
    from less.prems b have "n div b < n" by (simp add: int_div_less_self)
    with pos have "nat (n div b) < nat n" by simp
    from less.hyps [OF this pos]
    have ih: "map f (magnitude_digits b (n div b)) = rev (custom_loop (n div b) b [])" .
    have "magnitude_digits b n
        = magnitude_digits b (n div b) @ [lower_digits ! nat (n mod b)]"
      by (subst magnitude_digits.simps) (use False b in simp)
    with r ih show ?thesis by (simp add: step f)
  qed
qed

lemma decimal_digits_table:
  "list_all (\<lambda>k. lower_digits ! k = upper_digits ! k) [0..<10]"
  by (simp add: upt_rec [of _ "numeral _"] upt_rec [of 0] upper_digits_def lower_digits_def)

lemma decimal_digit:
  assumes "0 \<le> k" "k < 10"
  shows "lower_digits ! nat k = upper_digits ! nat k"
proof -
  from assms have "nat k \<in> set [0..<10]" by simp
  with decimal_digits_table show ?thesis unfolding list_all_iff by blast
qed

lemma magnitude_digits_normal:
  assumes n: "0 \<le> n"
  shows "normal_digits 2 n (magnitude_digits 2 n)"
    and "normal_digits 8 n (magnitude_digits 8 n)"
    and "normal_digits 16 n (map upper_char (magnitude_digits 16 n))"
proof -
  have two: "map (\<lambda>c. c) (magnitude_digits 2 n) = rev (custom_loop n 2 [])" if "0 < n"
    using that by (intro magnitude_digits_map) (simp_all add: decimal_digit)
  have eight: "map (\<lambda>c. c) (magnitude_digits 8 n) = rev (custom_loop n 8 [])" if "0 < n"
    using that by (intro magnitude_digits_map) (simp_all add: decimal_digit)
  have sixteen: "map upper_char (magnitude_digits 16 n) = rev (custom_loop n 16 [])" if "0 < n"
    using that by (intro magnitude_digits_map) (simp_all add: lower_digit)
  show "normal_digits 2 n (magnitude_digits 2 n)"
  proof (cases "n = 0")
    case True then show ?thesis by (simp add: magnitude_digits_zero normal_zero)
  next
    case False
    with n have "0 < n" by simp
    from two [OF this] custom_digits_normal [of 2 n] this show ?thesis by simp
  qed
  show "normal_digits 8 n (magnitude_digits 8 n)"
  proof (cases "n = 0")
    case True then show ?thesis by (simp add: magnitude_digits_zero normal_zero)
  next
    case False
    with n have "0 < n" by simp
    from eight [OF this] custom_digits_normal [of 8 n] this show ?thesis by simp
  qed
  show "normal_digits 16 n (map upper_char (magnitude_digits 16 n))"
  proof (cases "n = 0")
    case True
    have "upper_char (CHR ''0'') = CHR ''0''"
      by (simp add: upper_char_def lower_letters_def upper_letters_def)
    with True show ?thesis by (simp add: magnitude_digits_zero normal_zero)
  next
    case False
    with n have "0 < n" by simp
    from sixteen [OF this] custom_digits_normal [of 16 n] this show ?thesis by simp
  qed
qed

lemma float_of_int_exact:
  assumes "0 \<le> n" "n \<le> 2 ^ 53"
  shows "float_of_int n = Inr (Finite (of_int n))"
proof (cases "n = 2 ^ 53")
  case False
  with assms have "\<bar>n\<bar> < 2 ^ 53" by simp
  then show ?thesis by (rule float_of_int_small)
next
  case True
  have bl: "bitlen 9007199254740992 = 54" using bitlen_twopow_add_eq [of 0 53] by simp
  show ?thesis by (simp add: True float_of_int_def bl Let_def)
qed

lemma int_of_float_of_int: "int_of_float (Finite (of_int n)) = Inr n"
  by (simp add: int_of_float_def)

text \<open>
  The text of a float matters for the target 10 only. The statements about concrete
  inputs below fix \<open>float_str\<close> to the function that returns the empty text; by this
  lemma they hold for every other choice as well.
\<close>

lemma from_decimal_float_str:
  "b \<noteq> 10 \<Longrightarrow> from_decimal fs v b = from_decimal fs' v b"
  by (simp add: from_decimal_def split: sum.splits)

text \<open>
  C2, as amended. For base 2, 8 or 16 and every integer \<open>n\<close> from 0 to \<open>2 ^ 53\<close>: when
  \<^verbatim>\<open>int\<close> reads the text as \<open>n\<close> in that base, \<open>to_decimal\<close> returns the float \<open>n\<close> and
  \<open>from_decimal\<close> of it returns the normalized text of \<open>n\<close>: digits of the upper-case
  alphabet below the base, no leading zero, no prefix, of value \<open>n\<close>.
\<close>

theorem round_trip_exact_range:
  "b \<in> {2, 8, 16} \<and> 0 \<le> n \<and> n \<le> 2 ^ 53 \<and> py_int inp b = Inr n
   \<longrightarrow> (\<exists>s. to_decimal inp b = Inr (Some (Finite (of_int n)))
          \<and> from_decimal fs (Finite (of_int n)) b = Some s \<and> normal_form b n s)"
proof
  assume h: "b \<in> {2, 8, 16} \<and> 0 \<le> n \<and> n \<le> 2 ^ 53 \<and> py_int inp b = Inr n"
  then have n: "0 \<le> n" "n \<le> 2 ^ 53" and p: "py_int inp b = Inr n" and b: "b \<in> {2, 8, 16}"
    by simp_all
  from b p have td: "to_decimal inp b = Inr (Some (Finite (of_int n)))"
    by (auto simp: to_decimal_def float_of_parsed_def catch_value_type_def
        float_of_int_exact [OF n])
  from n have pre: "drop 2 (py_bin n) = magnitude_digits 2 n"
    "drop 2 (py_oct n) = magnitude_digits 8 n" "drop 2 (py_hex n) = magnitude_digits 16 n"
    by (simp_all add: py_bin_def py_oct_def py_hex_def with_prefix_def)
  from b n magnitude_digits_normal [OF n(1)]
  have "\<exists>s. from_decimal fs (Finite (of_int n)) b = Some s \<and> normal_form b n s"
    by (auto simp: from_decimal_def int_of_float_of_int pre normal_form_def)
  with td show "\<exists>s. to_decimal inp b = Inr (Some (Finite (of_int n)))
      \<and> from_decimal fs (Finite (of_int n)) b = Some s \<and> normal_form b n s"
    by blast
qed

theorem round_trip_exact_range_witness:
  "py_int ''0x00ff'' 16 = Inr 255
   \<and> to_decimal ''0x00ff'' 16 = Inr (Some (Finite 255))
   \<and> from_decimal (\<lambda>f. []) (Finite 255) 16 = Some ''FF''
   \<and> normal_form 16 255 ''FF''"
proof -
  have p: "py_int ''0x00ff'' 16 = Inr 255"
    by (simp add: py_int_def take_sign_def skip_prefix_def prefix_letter_def
        digit_value_def is_literal_space_def Let_def)
  have f: "from_decimal (\<lambda>f. []) (Finite 255) 16 = Some ''FF''"
    by (simp add: from_decimal_def int_of_float_def py_hex_def with_prefix_def
        magnitude_digits.simps lower_digits_def upper_char_def lower_letters_def
        upper_letters_def)
  have h: "(16::int) \<in> {2, 8, 16} \<and> (0::int) \<le> 255 \<and> (255::int) \<le> 2 ^ 53
      \<and> py_int ''0x00ff'' 16 = Inr 255"
    using p by simp
  from round_trip_exact_range [of 16 255 "''0x00ff''" "\<lambda>f. []", THEN mp, OF h]
  obtain s where t: "to_decimal ''0x00ff'' 16 = Inr (Some (Finite (of_int 255)))"
    and s: "from_decimal (\<lambda>f. []) (Finite (of_int 255)) 16 = Some s"
    and n: "normal_form 16 255 s"
    by blast
  from s f have "s = ''FF''" by simp
  with p t f n show ?thesis by simp
qed

text \<open>
  Against C2 as stated: for \<open>- 5\<close> written \<^verbatim>\<open>-101\<close> the result is \<^verbatim>\<open>b101\<close>, since
  \<^verbatim>\<open>bin(-5)[2:]\<close> cuts \<^verbatim>\<open>-0b101\<close> behind the sign and the \<^verbatim>\<open>0\<close>; and
  \<open>2 ^ 53 + 1\<close> is rounded to the float \<open>2 ^ 53\<close>, whose digits come back.
\<close>

theorem round_trip_counterexample:
  "py_int ''-101'' 2 = Inr (- 5)
   \<and> to_decimal ''-101'' 2 = Inr (Some (Finite (- 5)))
   \<and> from_decimal (\<lambda>f. []) (Finite (- 5)) 2 = Some ''b101''
   \<and> \<not> normal_form 2 (- 5) ''b101''
   \<and> py_int ''100000000000000000000000000000000000000000000000000001'' 2 = Inr (2 ^ 53 + 1)
   \<and> to_decimal ''100000000000000000000000000000000000000000000000000001'' 2 = Inr (Some (Finite (2 ^ 53)))
   \<and> from_decimal (\<lambda>f. []) (Finite (2 ^ 53)) 2 = Some ''100000000000000000000000000000000000000000000000000000''
   \<and> \<not> normal_form 2 (2 ^ 53 + 1) ''100000000000000000000000000000000000000000000000000000''"
proof -
  have p1: "py_int ''-101'' 2 = Inr (- 5)"
    by (simp add: py_int_def take_sign_def skip_prefix_def prefix_letter_def
        digit_value_def is_literal_space_def Let_def)
  have f1: "float_of_int (- 5) = Inr (Finite (- 5))"
    using float_of_int_small [of "- 5"] by simp
  have t1: "to_decimal ''-101'' 2 = Inr (Some (Finite (- 5)))"
    by (simp add: to_decimal_def float_of_parsed_def catch_value_type_def p1 f1)
  have d1: "from_decimal (\<lambda>f. []) (Finite (- 5)) 2 = Some ''b101''"
    by (simp add: from_decimal_def int_of_float_def py_bin_def with_prefix_def
        magnitude_digits.simps lower_digits_def)
  have n1: "\<not> normal_form 2 (- 5) ''b101''"
    by (simp add: normal_form_def)
  have p2: "py_int ''100000000000000000000000000000000000000000000000000001'' 2 = Inr (2 ^ 53 + 1)"
    by (simp add: py_int_def take_sign_def skip_prefix_def prefix_letter_def
        digit_value_def is_literal_space_def Let_def)
  have bl: "bitlen 9007199254740993 = 54" using bitlen_twopow_add_eq [of 1 53] by simp
  have f2: "float_of_int (2 ^ 53 + 1) = Inr (Finite (2 ^ 53))"
    by (simp add: float_of_int_def bl Let_def)
  have t2: "to_decimal ''100000000000000000000000000000000000000000000000000001'' 2 = Inr (Some (Finite (2 ^ 53)))"
    using p2 f2 by (simp add: to_decimal_def float_of_parsed_def catch_value_type_def)
  have d2: "from_decimal (\<lambda>f. []) (Finite (2 ^ 53)) 2 = Some ''100000000000000000000000000000000000000000000000000000''"
    by (simp add: from_decimal_def int_of_float_def py_bin_def with_prefix_def
        magnitude_digits.simps lower_digits_def)
  have n2: "\<not> normal_form 2 (2 ^ 53 + 1) ''100000000000000000000000000000000000000000000000000000''"
    by (simp add: normal_form_def normal_digits_def digit_value_def)
  from p1 t1 d1 n1 p2 t2 d2 n2 show ?thesis by blast
qed

lemma to_custom_base_cases:
  assumes b: "2 \<le> b" "b \<le> 36"
  shows "to_custom_base 0 b = Inr ''0''"
    and "0 < n \<Longrightarrow> to_custom_base n b = Inr (rev (custom_loop n b []))"
    and "n < 0 \<Longrightarrow> to_custom_base n b = Inr (CHR ''-'' # rev (custom_loop (- n) b []))"
  using b by (simp_all add: to_custom_base_def Let_def)

lemma from_decimal_digits:
  assumes b: "2 \<le> b" "b \<le> 36" "b \<noteq> 10" and v: "int_of_float v = Inr n"
  shows "n = 0 \<Longrightarrow> from_decimal fs v b = Some ''0''"
    and "0 < n \<Longrightarrow> from_decimal fs v b = Some (rev (custom_loop n b []))"
    and "n < 0 \<Longrightarrow> b \<notin> {2, 8, 16}
           \<Longrightarrow> from_decimal fs v b = Some (CHR ''-'' # rev (custom_loop (- n) b []))"
proof -
  have up: "upper_char (CHR ''0'') = CHR ''0''"
    by (simp add: upper_char_def lower_letters_def upper_letters_def)
  have pre: "drop 2 (py_bin n) = magnitude_digits 2 n"
    "drop 2 (py_oct n) = magnitude_digits 8 n" "drop 2 (py_hex n) = magnitude_digits 16 n"
    if "0 \<le> n"
    using that by (simp_all add: py_bin_def py_oct_def py_hex_def with_prefix_def)
  have m1: "b \<noteq> - 1" using b by simp
  show "from_decimal fs v b = Some ''0''" if "n = 0"
    using that b v pre m1
    by (simp add: from_decimal_def magnitude_digits_zero up to_custom_base_def)
  show "from_decimal fs v b = Some (rev (custom_loop n b []))" if n: "0 < n"
  proof -
    have two: "map (\<lambda>c. c) (magnitude_digits 2 n) = rev (custom_loop n 2 [])"
      using n by (intro magnitude_digits_map) (simp_all add: decimal_digit)
    have eight: "map (\<lambda>c. c) (magnitude_digits 8 n) = rev (custom_loop n 8 [])"
      using n by (intro magnitude_digits_map) (simp_all add: decimal_digit)
    have sixteen: "map upper_char (magnitude_digits 16 n) = rev (custom_loop n 16 [])"
      using n by (intro magnitude_digits_map) (simp_all add: lower_digit)
    from n have "0 \<le> n" by simp
    note p = pre [OF this]
    from two eight sixteen n b v m1 p to_custom_base_cases(2) [OF b(1,2) n]
    show ?thesis by (simp add: from_decimal_def)
  qed
  show "from_decimal fs v b = Some (CHR ''-'' # rev (custom_loop (- n) b []))"
    if n: "n < 0" and c: "b \<notin> {2, 8, 16}"
    using b v m1 c to_custom_base_cases(3) [OF b(1,2) n] by (simp add: from_decimal_def)
qed

text \<open>
  C7, as amended. \<open>to_custom_base\<close> raises its ValueError for every radix outside 2 to
  36; for a radix from 2 to 36 it returns the normalized text of the number (\<^verbatim>\<open>0\<close> for
  zero, a leading \<^verbatim>\<open>-\<close> and the digits of the magnitude for a negative number), whose
  digits are those of the quotient by the radix followed by the digit of the remainder.
  \<open>from_decimal\<close> returns the text of \<open>to_custom_base\<close> for every target other than 10,
  2, 8, 16 and \<open>- 1\<close>. So \<open>from_decimal\<close>, for a value whose truncation is \<open>n\<close>:
  returns \<^verbatim>\<open>None\<close> for every radix outside 2 to 36 other than \<open>- 1\<close>; for \<open>- 1\<close> returns
  the Roman numeral of \<open>n\<close>; for 10 returns the float's own text; for every radix from 2
  to 36 other than 10 returns the normalized digits of \<open>n \<ge> 0\<close> (\<^verbatim>\<open>0\<close> for zero); for every
  radix from 2 to 36 other than 10, 2, 8 and 16 returns a leading \<^verbatim>\<open>-\<close> and the normalized
  digits of the magnitude for \<open>n < 0\<close>; and for every radix from 2 to 36 other than 10 the
  digits of \<open>n > 0\<close> are the digits of the quotient by the radix (none when \<open>n\<close> is below
  the radix) followed by the digit of the remainder.
\<close>

theorem custom_radix_rendering:
  "(b < 2 \<or> 36 < b \<longrightarrow> to_custom_base n b = Inl (ValueError, RadixRangeText))
   \<and> (2 \<le> b \<and> b \<le> 36
      \<longrightarrow> (\<exists>s. to_custom_base n b = Inr s \<and> normal_form b n s \<and> (n = 0 \<longrightarrow> s = ''0'')))
   \<and> (2 \<le> b \<and> b \<le> 36 \<and> 0 < n
      \<longrightarrow> (\<exists>q. to_custom_base (n div b) b = Inr q
             \<and> to_custom_base n b
                 = Inr ((if n < b then [] else q) @ [upper_digits ! nat (n mod b)])))
   \<and> (b \<notin> {10, 2, 8, 16, - 1} \<and> int_of_float v = Inr n
      \<longrightarrow> from_decimal fs v b
            = (case to_custom_base n b of Inl e \<Rightarrow> None | Inr s \<Rightarrow> Some s))
   \<and> ((b < 2 \<or> 36 < b) \<and> b \<noteq> - 1 \<longrightarrow> from_decimal fs v b = None)
   \<and> (int_of_float v = Inr n
      \<longrightarrow> from_decimal fs v (- 1)
            = (case int_to_roman n of Inl e \<Rightarrow> None | Inr s \<Rightarrow> Some s))
   \<and> (int_of_float v = Inr n \<longrightarrow> from_decimal fs v 10 = Some (fs v))
   \<and> (2 \<le> b \<and> b \<le> 36 \<and> b \<noteq> 10 \<and> int_of_float v = Inr n \<and> 0 \<le> n
      \<longrightarrow> (\<exists>s. from_decimal fs v b = Some s \<and> normal_digits b n s
             \<and> (n = 0 \<longrightarrow> s = ''0'')))
   \<and> (2 \<le> b \<and> b \<le> 36 \<and> b \<notin> {10, 2, 8, 16} \<and> int_of_float v = Inr n \<and> n < 0
      \<longrightarrow> (\<exists>s. from_decimal fs v b = Some (CHR ''-'' # s) \<and> normal_digits b (- n) s))
   \<and> (2 \<le> b \<and> b \<le> 36 \<and> b \<noteq> 10 \<and> 0 < n
      \<longrightarrow> (\<exists>q. from_decimal fs (Finite (of_int (n div b))) b = Some q
             \<and> from_decimal fs (Finite (of_int n)) b
                 = Some ((if n < b then [] else q) @ [upper_digits ! nat (n mod b)])))"
proof (intro conjI impI)
  assume "b < 2 \<or> 36 < b"
  then show "to_custom_base n b = Inl (ValueError, RadixRangeText)"
    by (auto simp: to_custom_base_def)
next
  assume b: "2 \<le> b \<and> b \<le> 36"
  then have b2: "2 \<le> b" and b36: "b \<le> 36" by simp_all
  consider "n = 0" | "0 < n" | "n < 0" by linarith
  then show "\<exists>s. to_custom_base n b = Inr s \<and> normal_form b n s \<and> (n = 0 \<longrightarrow> s = ''0'')"
  proof cases
    case 1
    with to_custom_base_cases(1) [OF b2 b36] normal_zero [OF b2 b36] show ?thesis
      by (simp add: normal_form_def)
  next
    case 2
    with to_custom_base_cases(2) [OF b2 b36, of n] custom_digits_normal [OF b2 b36, of n]
    show ?thesis by (simp add: normal_form_def)
  next
    case 3
    then have "0 < - n" by simp
    from custom_digits_normal [OF b2 b36 this] to_custom_base_cases(3) [OF b2 b36 3] 3
    show ?thesis by (simp add: normal_form_def)
  qed
next
  assume h: "2 \<le> b \<and> b \<le> 36 \<and> 0 < n"
  then have b2: "2 \<le> b" and b36: "b \<le> 36" and n: "0 < n" by simp_all
  have step: "rev (custom_loop n b [])
      = rev (custom_loop (n div b) b []) @ [upper_digits ! nat (n mod b)]"
    by (rule custom_loop_step [OF n b2])
  show "\<exists>q. to_custom_base (n div b) b = Inr q
      \<and> to_custom_base n b = Inr ((if n < b then [] else q) @ [upper_digits ! nat (n mod b)])"
  proof (cases "n < b")
    case True
    with n have z: "n div b = 0" by simp
    with step have "rev (custom_loop n b []) = [upper_digits ! nat (n mod b)]"
      by (simp add: custom_loop_zero)
    with True z to_custom_base_cases(1,2) [OF b2 b36] n show ?thesis by simp
  next
    case False
    with b2 have pos: "0 < n div b" by (simp add: pos_imp_zdiv_pos_iff)
    from to_custom_base_cases(2) [OF b2 b36 pos] to_custom_base_cases(2) [OF b2 b36 n]
      step False
    show ?thesis by simp
  qed
next
  assume "b \<notin> {10, 2, 8, 16, - 1} \<and> int_of_float v = Inr n"
  then show "from_decimal fs v b
      = (case to_custom_base n b of Inl e \<Rightarrow> None | Inr s \<Rightarrow> Some s)"
    by (simp add: from_decimal_def)
next
  assume "(b < 2 \<or> 36 < b) \<and> b \<noteq> - 1"
  then show "from_decimal fs v b = None"
    by (auto simp: from_decimal_def to_custom_base_def split: sum.splits)
next
  assume "int_of_float v = Inr n"
  then show "from_decimal fs v (- 1)
      = (case int_to_roman n of Inl e \<Rightarrow> None | Inr s \<Rightarrow> Some s)"
    by (simp add: from_decimal_def)
next
  assume "int_of_float v = Inr n"
  then show "from_decimal fs v 10 = Some (fs v)"
    by (simp add: from_decimal_def)
next
  assume h: "2 \<le> b \<and> b \<le> 36 \<and> b \<noteq> 10 \<and> int_of_float v = Inr n \<and> 0 \<le> n"
  then have b: "2 \<le> b" "b \<le> 36" "b \<noteq> 10" and v: "int_of_float v = Inr n" and n: "0 \<le> n"
    by simp_all
  show "\<exists>s. from_decimal fs v b = Some s \<and> normal_digits b n s \<and> (n = 0 \<longrightarrow> s = ''0'')"
  proof (cases "n = 0")
    case True
    with from_decimal_digits(1) [OF b v] normal_zero [OF b(1,2)] show ?thesis by simp
  next
    case False
    with n have pos: "0 < n" by simp
    from from_decimal_digits(2) [OF b v pos] custom_digits_normal [OF b(1,2) pos] False
    show ?thesis by simp
  qed
next
  assume h: "2 \<le> b \<and> b \<le> 36 \<and> b \<notin> {10, 2, 8, 16} \<and> int_of_float v = Inr n \<and> n < 0"
  then have b: "2 \<le> b" "b \<le> 36" "b \<noteq> 10" and c: "b \<notin> {2, 8, 16}"
    and v: "int_of_float v = Inr n" and n: "n < 0"
    by simp_all
  from n have pos: "0 < - n" by simp
  from from_decimal_digits(3) [OF b v n c] custom_digits_normal [OF b(1,2) pos]
  show "\<exists>s. from_decimal fs v b = Some (CHR ''-'' # s) \<and> normal_digits b (- n) s"
    by simp
next
  assume h: "2 \<le> b \<and> b \<le> 36 \<and> b \<noteq> 10 \<and> 0 < n"
  then have b: "2 \<le> b" "b \<le> 36" "b \<noteq> 10" and n: "0 < n" by simp_all
  have step: "rev (custom_loop n b [])
      = rev (custom_loop (n div b) b []) @ [upper_digits ! nat (n mod b)]"
    by (rule custom_loop_step [OF n b(1)])
  note whole = from_decimal_digits(2) [OF b int_of_float_of_int n, of fs]
  show "\<exists>q. from_decimal fs (Finite (of_int (n div b))) b = Some q
      \<and> from_decimal fs (Finite (of_int n)) b
          = Some ((if n < b then [] else q) @ [upper_digits ! nat (n mod b)])"
  proof (cases "n < b")
    case True
    with n have z: "n div b = 0" by simp
    with step have "rev (custom_loop n b []) = [upper_digits ! nat (n mod b)]"
      by (simp add: custom_loop_zero)
    with True whole from_decimal_digits(1) [OF b int_of_float_of_int z, of fs]
    show ?thesis by simp
  next
    case False
    with b have pos: "0 < n div b" by (simp add: pos_imp_zdiv_pos_iff)
    from from_decimal_digits(2) [OF b int_of_float_of_int pos, of fs] whole step False
    show ?thesis by simp
  qed
qed

theorem custom_radix_rendering_witness:
  "to_custom_base 5 37 = Inl (ValueError, RadixRangeText)
   \<and> to_custom_base (- 1000) 7 = Inr ''-2626'' \<and> normal_form 7 (- 1000) ''-2626''
   \<and> to_custom_base 1000 7 = Inr (''262'' @ [upper_digits ! nat (1000 mod 7)])
   \<and> from_decimal (\<lambda>f. []) (Finite (- 1000)) 7 = Some ''-2626''
   \<and> from_decimal (\<lambda>f. []) (Finite 5) 40 = None
   \<and> from_decimal (\<lambda>f. []) (Finite 5) (- 1) = Some ''V''
   \<and> from_decimal (float_text (\<lambda>f. [])) (Finite 0) 10 = Some ''0.0''
   \<and> from_decimal (\<lambda>f. []) (Finite 255) 16 = Some ''FF'' \<and> normal_digits 16 255 ''FF''
   \<and> normal_digits 7 1000 ''2626''
   \<and> from_decimal (\<lambda>f. []) (Finite 1000) 7
       = Some (''262'' @ [upper_digits ! nat (1000 mod 7)])"
proof -
  note c = custom_radix_rendering
  have i1: "int_of_float (Finite (- 1000)) = Inr (- 1000)"
    and i2: "int_of_float (Finite 255) = Inr 255"
    and i3: "int_of_float (Finite 5) = Inr 5"
    and i4: "int_of_float (Finite 0) = Inr 0"
    by (simp_all add: int_of_float_def)
  have e1: "to_custom_base (- 1000) 7 = Inr ''-2626''"
    and e2: "to_custom_base 142 7 = Inr ''262''"
    by (simp_all add: to_custom_base_def custom_loop.simps upper_digits_def Let_def)
  have e3: "from_decimal (\<lambda>f. []) (Finite 255) 16 = Some ''FF''"
    by (simp add: from_decimal_def int_of_float_def py_hex_def with_prefix_def
        magnitude_digits.simps lower_digits_def upper_char_def lower_letters_def
        upper_letters_def)
  have e4: "int_to_roman 5 = Inr ''V''"
    by (simp add: int_to_roman_def ROMAN_MAP_def)
  have e5: "float_text (\<lambda>f. []) (Finite 0) = ''0.0''"
    by (simp add: float_text_def with_prefix_def magnitude_digits.simps lower_digits_def)
  have e6: "from_decimal (\<lambda>f. []) (Finite 142) 7 = Some ''262''"
    by (simp add: from_decimal_def int_of_float_def to_custom_base_def custom_loop.simps
        upper_digits_def Let_def)
  from c [of 37 5] have a: "to_custom_base 5 37 = Inl (ValueError, RadixRangeText)"
    by simp
  from c [of 7 "- 1000"] e1 have b: "normal_form 7 (- 1000) ''-2626''"
    by simp
  from c [of 7 1000] e2
  have d: "to_custom_base 1000 7 = Inr (''262'' @ [upper_digits ! nat (1000 mod 7)])"
    by simp
  from c [of 7 "- 1000" "Finite (- 1000)" "\<lambda>f. []"] i1 e1
  have f: "from_decimal (\<lambda>f. []) (Finite (- 1000)) 7 = Some ''-2626''"
    by simp
  from c [of 40 _ "Finite 5" "\<lambda>f. []"]
  have g: "from_decimal (\<lambda>f. []) (Finite 5) 40 = None"
    by simp
  from c [of _ 5 "Finite 5" "\<lambda>f. []"] i3 e4
  have r: "from_decimal (\<lambda>f. []) (Finite 5) (- 1) = Some ''V''"
    by simp
  from c [of _ 0 "Finite 0" "float_text (\<lambda>f. [])"] i4 e5
  have t: "from_decimal (float_text (\<lambda>f. [])) (Finite 0) 10 = Some ''0.0''"
    by simp
  from c [of 16 255 "Finite 255" "\<lambda>f. []"] i2 e3
  have h: "normal_digits 16 255 ''FF''"
    by (simp add: upper_digits_def)
  from c [of 7 "- 1000" "Finite (- 1000)" "\<lambda>f. []"] i1 f
  have m: "normal_digits 7 1000 ''2626''"
    by (simp add: upper_digits_def)
  from c [of 7 1000 _ "\<lambda>f. []"] e6
  have q: "from_decimal (\<lambda>f. []) (Finite 1000) 7
      = Some (''262'' @ [upper_digits ! nat (1000 mod 7)])"
    by simp
  from a e1 b d f g r t e3 h m q show ?thesis by simp
qed

text \<open>
  Against C7 as stated. The radix 10 is in 2 to 36, and for it \<open>from_decimal\<close> returns
  the text of the float, \<^verbatim>\<open>0.0\<close> for the value zero, where the claim has the digit \<^verbatim>\<open>0\<close>
  that \<open>to_custom_base\<close> returns. And for radix 16 a negative value comes back without
  its sign, \<^verbatim>\<open>XFF\<close> for \<open>- 255\<close>, where the claim has the \<^verbatim>\<open>-FF\<close> that \<open>to_custom_base\<close>
  returns.
\<close>

theorem custom_radix_counterexample:
  "from_decimal (float_text (\<lambda>f. [])) (Finite 0) 10 = Some ''0.0''
   \<and> to_custom_base 0 10 = Inr ''0''
   \<and> from_decimal (float_text (\<lambda>f. [])) (Finite (- 255)) 16 = Some ''XFF''
   \<and> to_custom_base (- 255) 16 = Inr ''-FF''
   \<and> \<not> normal_form 16 (- 255) ''XFF''"
  by (simp add: from_decimal_def int_of_float_def float_text_def to_custom_base_def
      custom_loop.simps upper_digits_def Let_def py_hex_def with_prefix_def
      magnitude_digits.simps lower_digits_def upper_char_def lower_letters_def
      upper_letters_def normal_form_def)

end
